theory Spec2Isabelle
  imports Complex_Main "HOL-Library.Word"
begin

section \<open>The CPU predictor of xgboost (src/predictor/cpu_predictor.cc)\<close>

text \<open>
  Conventions of the embedding.
  \<^item> \<open>bst_float\<close> is modelled by \<open>real\<close>: sums and quotients are exact, rounding is not
    modelled.
  \<^item> \<open>size_t\<close> quantities are \<open>nat\<close>; \<open>unsigned\<close> (32 bit) tree limits are \<open>32 word\<close>,
    so that \<open>*=\<close> wraps; the casts to \<open>bst_omp_uint\<close> and the \<open>unsigned\<close> offsets of the
    interaction pass are written out with \<open>mod 2 ^ 32\<close>. The feature count and the
    group count of a model are 32-bit unsigned; where the code reads one into an \<open>int\<close>
    or \<open>int32_t\<close> and widens it again, the conversions \<open>int32_t\<close> and \<open>size_t\<close> are
    written out.
  \<^item> A failed \<open>CHECK\<close> is the error \<open>CheckFailed\<close>; an access outside a vector
    (undefined behaviour in C++) is the error \<open>OutOfRange\<close>.
  \<^item> \<open>common::ParallelFor\<close> is run as a sequential loop over the indices in increasing
    order; \<open>omp_get_thread_num()\<close> is a parameter \<open>thr\<close> mapping a loop index to the
    worker that runs it.
\<close>

subsection \<open>Errors and checked vector access\<close>

datatype error = CheckFailed string | OutOfRange

definition bindE :: "error + 'a \<Rightarrow> ('a \<Rightarrow> error + 'b) \<Rightarrow> error + 'b" where
  "bindE m f = (case m of Inl e \<Rightarrow> Inl e | Inr x \<Rightarrow> f x)"

text \<open>A \<open>for\<close> loop over the indices \<open>is\<close> whose body may fail.\<close>

fun foldE :: "('i \<Rightarrow> 's \<Rightarrow> error + 's) \<Rightarrow> 'i list \<Rightarrow> 's \<Rightarrow> error + 's" where
  "foldE f [] s = Inr s"
| "foldE f (i # is) s = (case f i s of Inl e \<Rightarrow> Inl e | Inr s' \<Rightarrow> foldE f is s')"

definition vec_at :: "'a list \<Rightarrow> nat \<Rightarrow> error + 'a" where
  "vec_at xs i = (if i < length xs then Inr (xs ! i) else Inl OutOfRange)"

definition vec_put :: "'a list \<Rightarrow> nat \<Rightarrow> 'a \<Rightarrow> error + 'a list" where
  "vec_put xs i v = (if i < length xs then Inr (xs[i := v]) else Inl OutOfRange)"

text \<open>\<open>std::vector::resize(n, v)\<close>: keeps the first \<open>n\<close> elements, pads with \<open>v\<close>.\<close>

definition resize :: "'a list \<Rightarrow> nat \<Rightarrow> 'a \<Rightarrow> 'a list" where
  "resize xs n v = take n xs @ replicate (n - length xs) v"

text \<open>
  \<open>int32_t n\<close> is the value of an \<open>int\<close> or \<open>int32_t\<close> that is assigned the unsigned
  quantity \<open>n\<close> (two's complement), and \<open>size_t x\<close> the value of the signed \<open>x\<close>
  converted to the 64-bit \<open>size_t\<close>.
\<close>

definition int32_t :: "nat \<Rightarrow> int" where
  "int32_t n = (let m = int (n mod 2 ^ 32) in if m < 2 ^ 31 then m else m - 2 ^ 32)"

definition size_t :: "int \<Rightarrow> nat" where
  "size_t x = nat (x mod 2 ^ 64)"

subsection \<open>Rows and feature vectors\<close>

text \<open>An \<open>Entry\<close> is a pair (feature index, value); a \<open>SparsePage::Inst\<close> is a span of entries.\<close>

type_synonym Entry = "nat \<times> real"
type_synonym Inst = "Entry list"

text \<open>
  Modelled from the spec: \<open>RegTree::FVec\<close> (tree_model.h is not under src/). The spec's
  data model: a dense array of feature values with a missing marker per slot;
  \<open>Init\<close> sizes it to the feature count with every slot missing, \<open>Fill\<close> overlays the
  row's (index, value) pairs and marks them present, \<open>Drop\<close> resets exactly the
  slots the row touched to missing. Indices outside the buffer are skipped.
\<close>

type_synonym FVec = "real option list"

definition Init :: "nat \<Rightarrow> FVec" where
  "Init n = replicate n None"

definition Size :: "FVec \<Rightarrow> nat" where
  "Size feats = length feats"

fun Fill :: "FVec \<Rightarrow> Inst \<Rightarrow> FVec" where
  "Fill feats [] = feats"
| "Fill feats ((idx, v) # inst) =
     Fill (if idx < length feats then feats[idx := Some v] else feats) inst"

fun Drop :: "FVec \<Rightarrow> Inst \<Rightarrow> FVec" where
  "Drop feats [] = feats"
| "Drop feats ((idx, v) # inst) =
     Drop (if idx < length feats then feats[idx := None] else feats) inst"

definition HasMissing :: "FVec \<Rightarrow> bool" where
  "HasMissing feats = (None \<in> set feats)"

subsection \<open>Trees and the ensemble\<close>

text \<open>
  A tree is used only through its interface (tree_model.h is not under src/), so its
  operations are parameters: \<open>GetLeafIndex has_missing feats\<close> is the template
  \<open>GetLeafIndex<has_missing>(feats)\<close>, \<open>LeafValue nid\<close> is \<open>(*tree)[nid].LeafValue()\<close>,
  \<open>CalculateContributions feats group_indices num_feat_group condition condition_feature ci\<close>
  is the value the call leaves in slot \<open>ci\<close> of a zeroed buffer, and likewise
  \<open>CalculateContributionsApprox feats ci\<close>. \<open>FillNodeMeanValues\<close> only fills a cache
  inside the tree and is not modelled.
\<close>

record RegTree =
  GetLeafIndex :: "bool \<Rightarrow> FVec \<Rightarrow> int"
  LeafValue :: "int \<Rightarrow> real"
  CalculateContributions :: "FVec \<Rightarrow> nat list option \<Rightarrow> int \<Rightarrow> int \<Rightarrow> nat \<Rightarrow> nat \<Rightarrow> real"
  CalculateContributionsApprox :: "FVec \<Rightarrow> nat \<Rightarrow> real"

text \<open>\<open>gbm::GBTreeModel\<close> with the fields of \<open>learner_model_param\<close> and \<open>param\<close> that are read.\<close>

record GBTreeModel =
  trees :: "RegTree list"
  tree_info :: "int list"
  num_output_group :: nat
  num_feature :: nat
  base_score :: real
  size_leaf_vector :: int

subsection \<open>PredValue and PredictInstance\<close>




subsection \<open>Data sources\<close>

text \<open>
  A \<open>SparsePage\<close> is a batch of rows with the row id of its first row; \<open>MetaInfo\<close> holds
  the row count and the base margin; a \<open>DMatrix\<close> is its info and its batches.
\<close>

record SparsePage =
  base_rowid :: nat
  page_rows :: "Inst list"

record MetaInfo =
  num_row :: nat
  base_margin :: "real list"

record DMatrix =
  Info :: MetaInfo
  GetBatches :: "SparsePage list"

text \<open>
  An in-place adapter: its column count and its lines. An element of a line is a column
  index and a \<open>float\<close>, where \<open>None\<close> stands for NaN. The adapter classes are not under
  src/; the four supported kinds expose the same interface.
\<close>

record Adapter =
  NumColumns :: nat
  adapter_lines :: "(nat \<times> real option) list list"

definition NumRows :: "Adapter \<Rightarrow> nat" where
  "NumRows m = length (adapter_lines m)"

text \<open>
  The two instances of the template parameter \<open>DataView\<close>. \<open>SparsePageView p\<close> is the
  view of the page \<open>p\<close> (lines 90-102). An \<open>AdapterView\<close> (lines 104-145) holds its
  adapter, the value that stands for missing, the workspace, which is a span over a
  vector of entries of its caller, and for every worker the number \<open>current_unroll\<close>
  of the window of the workspace that the worker writes next.
\<close>

datatype DataView =
    SparsePageView SparsePage
  | AdapterView Adapter "real option" "Entry list" "nat list"

definition kUnroll :: nat where
  "kUnroll = 8"

text \<open>
  The constructor of \<open>AdapterView\<close> (lines 115-118); \<open>max_threads\<close> is
  \<open>omp_get_max_threads()\<close>.
\<close>

definition new_AdapterView :: "nat \<Rightarrow> Adapter \<Rightarrow> real option \<Rightarrow> Entry list \<Rightarrow> DataView" where
  "new_AdapterView max_threads adapter missing workplace =
     AdapterView adapter missing workplace
       (replicate (if max_threads > 0 then max_threads else 1) 0)"

text \<open>\<open>base_rowid\<close> and \<open>Size()\<close> of the two views (lines 92, 101, 142, 144).\<close>

fun view_base_rowid :: "DataView \<Rightarrow> nat" where
  "view_base_rowid (SparsePageView p) = base_rowid p"
| "view_base_rowid (AdapterView adapter missing workspace current_unroll) = 0"

fun view_Size :: "DataView \<Rightarrow> nat" where
  "view_Size (SparsePageView p) = length (page_rows p)"
| "view_Size (AdapterView adapter missing workspace current_unroll) = NumRows adapter"

text \<open>
  The loop of \<open>AdapterView::operator[]\<close> over the elements of a line (lines 126-133).
  An element is kept when it is neither equal to \<open>missing\<close> nor NaN (\<open>missing_ != e.value\<close>
  holds whenever either side is NaN); a kept element is written to the workspace at
  \<open>non_missing\<close>, with its column index cast to the 32-bit \<open>bst_feature_t\<close>. The
  workspace is a \<open>Span\<close>, whose \<open>operator[]\<close> and \<open>subspan\<close> check their bounds and
  terminate the program outside them: that is the error \<open>OutOfRange\<close> too.
\<close>

definition store_line ::
  "real option \<Rightarrow> (nat \<times> real option) list \<Rightarrow> Entry list \<Rightarrow> nat \<Rightarrow> error + (Entry list \<times> nat)" where
  "store_line missing row workspace beg =
     foldE (\<lambda>(column_idx, value) (workspace, non_missing).
        case value of
          None \<Rightarrow> Inr (workspace, non_missing)
        | Some v \<Rightarrow>
            if missing \<noteq> Some v
            then bindE (vec_put workspace non_missing (column_idx mod 2 ^ 32, v))
                   (\<lambda>workspace'. Inr (workspace', non_missing + 1))
            else Inr (workspace, non_missing))
       row (workspace, beg)"

definition subspan :: "'a list \<Rightarrow> nat \<Rightarrow> nat \<Rightarrow> error + 'a list" where
  "subspan xs offset count =
     (if offset + count \<le> length xs then Inr (take count (drop offset xs)) else Inl OutOfRange)"

text \<open>
  \<open>operator[]\<close> of the two views (line 100 and lines 119-140), called by worker \<open>t\<close>
  (\<open>omp_get_thread_num()\<close>). The result is the row and the view after the call: the
  view of an adapter has written the row to the window of the worker and advanced the
  worker's window number. \<open>columns\<close> is a \<open>bst_feature_t\<close>, and \<open>beg\<close> is computed in
  \<open>size_t\<close>.
\<close>

fun view_at :: "nat \<Rightarrow> DataView \<Rightarrow> nat \<Rightarrow> error + (Inst \<times> DataView)" where
  "view_at t (SparsePageView p) i =
     bindE (vec_at (page_rows p) i) (\<lambda>inst. Inr (inst, SparsePageView p))"
| "view_at t (AdapterView adapter missing workspace current_unroll) i =
     (let columns = NumColumns adapter mod 2 ^ 32 in
      bindE (vec_at (adapter_lines adapter) i) (\<lambda>row.
      bindE (vec_at current_unroll t) (\<lambda>unroll.
        let beg = (columns * kUnroll * t + unroll * columns) mod 2 ^ 64 in
        bindE (store_line missing row workspace beg) (\<lambda>(workspace', non_missing).
        bindE (subspan workspace' beg (non_missing - beg)) (\<lambda>ret.
          Inr (ret, AdapterView adapter missing workspace'
                      (current_unroll[t := (if unroll + 1 = kUnroll then 0 else unroll + 1)])))))))"

subsection \<open>The kernel over blocks of rows\<close>

definition kBlockOfRowsSize :: nat where
  "kBlockOfRowsSize = 64"

text \<open>\<open>static_cast<bst_omp_uint>\<close>: \<open>bst_omp_uint\<close> is a 32-bit unsigned integer.\<close>

definition bst_omp_uint :: "nat \<Rightarrow> nat" where
  "bst_omp_uint n = n mod 2 ^ 32"

text \<open>\<open>PredValueByOneTree\<close> (lines 46-51).\<close>

definition PredValueByOneTree :: "FVec \<Rightarrow> RegTree \<Rightarrow> real" where
  "PredValueByOneTree p_feats tree =
     (let lid = (if HasMissing p_feats then GetLeafIndex tree True p_feats
                 else GetLeafIndex tree False p_feats)
      in LeafValue tree lid)"

text \<open>
  \<open>PredictByAllTrees\<close> (lines 53-66). \<open>gid\<close> is the \<open>int\<close> of \<open>tree_info\<close> converted to
  \<open>size_t\<close>, and the index into \<open>preds\<close> is computed in \<open>size_t\<close>.
\<close>

definition PredictByAllTrees ::
  "GBTreeModel \<Rightarrow> nat \<Rightarrow> nat \<Rightarrow> real list \<Rightarrow> nat \<Rightarrow> nat \<Rightarrow> FVec list \<Rightarrow> nat \<Rightarrow> nat
     \<Rightarrow> error + real list" where
  "PredictByAllTrees model tree_begin tree_end out_preds predict_offset num_group
       thread_temp offset block_size =
     foldE (\<lambda>tree_id preds.
        bindE (vec_at (tree_info model) tree_id) (\<lambda>g.
          let gid = nat (g mod 2 ^ 64) in
          foldE (\<lambda>i preds.
             let idx = ((predict_offset + i) * num_group + gid) mod 2 ^ 64 in
             bindE (vec_at thread_temp (offset + i)) (\<lambda>feats.
             bindE (vec_at (trees model) tree_id) (\<lambda>tree.
             bindE (vec_at preds idx) (\<lambda>old.
               vec_put preds idx (old + PredValueByOneTree feats tree)))))
            [0..<block_size] preds))
       [tree_begin..<tree_end] out_preds"

text \<open>
  \<open>FVecFill\<close> and \<open>FVecDrop\<close> (lines 68-88), run by worker \<open>t\<close>. \<open>num_feature\<close> is an
  \<open>int\<close>, which \<open>Init\<close> takes as a \<open>size_t\<close>. Both loops call \<open>operator[]\<close> of the
  view, so their state is the pool and the view.
\<close>

definition FVecFill ::
  "nat \<Rightarrow> nat \<Rightarrow> nat \<Rightarrow> int \<Rightarrow> DataView \<Rightarrow> nat \<Rightarrow> FVec list \<Rightarrow> error + (FVec list \<times> DataView)" where
  "FVecFill t block_size batch_offset n_feature batch fvec_offset p_feats =
     foldE (\<lambda>i (p_feats, batch).
        bindE (vec_at p_feats (fvec_offset + i)) (\<lambda>feats0.
          let feats = (if Size feats0 = 0 then Init (size_t n_feature) else feats0) in
          bindE (view_at t batch (batch_offset + i)) (\<lambda>(inst, batch').
          bindE (vec_put p_feats (fvec_offset + i) (Fill feats inst))
            (\<lambda>p_feats'. Inr (p_feats', batch')))))
       [0..<block_size] (p_feats, batch)"

definition FVecDrop ::
  "nat \<Rightarrow> nat \<Rightarrow> nat \<Rightarrow> DataView \<Rightarrow> nat \<Rightarrow> FVec list \<Rightarrow> error + (FVec list \<times> DataView)" where
  "FVecDrop t block_size batch_offset batch fvec_offset p_feats =
     foldE (\<lambda>i (p_feats, batch).
        bindE (vec_at p_feats (fvec_offset + i)) (\<lambda>feats.
          bindE (view_at t batch (batch_offset + i)) (\<lambda>(inst, batch').
          bindE (vec_put p_feats (fvec_offset + i) (Drop feats inst))
            (\<lambda>p_feats'. Inr (p_feats', batch')))))
       [0..<block_size] (p_feats, batch)"

text \<open>The number of blocks (line 160) and the rows of one block (lines 162-163).\<close>

definition n_row_blocks :: "nat \<Rightarrow> nat" where
  "n_row_blocks nsize =
     nsize div kBlockOfRowsSize + (if nsize mod kBlockOfRowsSize \<noteq> 0 then 1 else 0)"

definition block_offset :: "nat \<Rightarrow> nat" where
  "block_offset block_id = block_id * kBlockOfRowsSize"

definition block_size_of :: "nat \<Rightarrow> nat \<Rightarrow> nat" where
  "block_size_of nsize block_id = min (nsize - block_offset block_id) kBlockOfRowsSize"

text \<open>
  \<open>PredictBatchByBlockOfRowsKernel\<close> (lines 147-172). \<open>thr block_id\<close> is the worker
  that runs the block. \<open>num_group\<close> is the group count read into an \<open>int32_t\<close> and
  passed on as a \<open>size_t\<close>, and \<open>num_feature\<close> the feature count read into an \<open>int\<close>.
  The bounds of the tree range are \<open>int32_t\<close> here and are passed on as \<open>size_t\<close>
  to \<open>PredictByAllTrees\<close>. The view is taken by value and
  captured by the parallel loop, so the state of the loop is the output vector, the
  pool of feature vectors and the view; \<open>kernel_block\<close> is the body of the parallel
  loop (lines 161-171).
\<close>

definition kernel_block ::
  "(nat \<Rightarrow> nat) \<Rightarrow> GBTreeModel \<Rightarrow> int \<Rightarrow> int \<Rightarrow> nat \<Rightarrow> nat
     \<Rightarrow> (real list \<times> FVec list \<times> DataView) \<Rightarrow> error + (real list \<times> FVec list \<times> DataView)" where
  "kernel_block thr model tree_begin tree_end nsize block_id =
     (\<lambda>(preds, thread_temp, batch).
        let num_group = int32_t (num_output_group model);
            n_feature = int32_t (num_feature model);
            batch_offset = block_offset block_id;
            block_size = block_size_of nsize block_id;
            fvec_offset = thr block_id * kBlockOfRowsSize
        in bindE (FVecFill (thr block_id) block_size batch_offset n_feature batch fvec_offset
                    thread_temp) (\<lambda>(filled, batch).
           bindE (PredictByAllTrees model (size_t tree_begin) (size_t tree_end) preds
                    (batch_offset + view_base_rowid batch) (size_t num_group) filled
                    fvec_offset block_size) (\<lambda>preds'.
           bindE (FVecDrop (thr block_id) block_size batch_offset batch fvec_offset filled)
             (\<lambda>(dropped, batch). Inr (preds', dropped, batch)))))"

definition PredictBatchByBlockOfRowsKernel ::
  "(nat \<Rightarrow> nat) \<Rightarrow> DataView \<Rightarrow> real list \<Rightarrow> GBTreeModel \<Rightarrow> int \<Rightarrow> int \<Rightarrow> FVec list
     \<Rightarrow> error + (real list \<times> FVec list)" where
  "PredictBatchByBlockOfRowsKernel thr batch out_preds model tree_begin tree_end p_thread_temp =
     (if size_leaf_vector model \<noteq> 0
      then Inl (CheckFailed ''size_leaf_vector is enforced to 0 so far'')
      else
        let nsize = bst_omp_uint (view_Size batch)
        in bindE (foldE (kernel_block thr model tree_begin tree_end nsize)
                    [0..<n_row_blocks nsize] (out_preds, p_thread_temp, batch))
             (\<lambda>(preds, thread_temp, batch). Inr (preds, thread_temp)))"

subsection \<open>The predictor's entry points\<close>

text \<open>
  \<open>InitThreadTemp\<close> (lines 177-182): grows the pool with empty feature vectors. Its
  parameter \<open>nthread\<close> is an \<open>int\<close>, given here by its value as a natural number; a
  caller that computes it in another type converts it (a negative \<open>int\<close> leaves the
  pool as it is, like 0). The feature count is not used.
\<close>

definition InitThreadTemp :: "nat \<Rightarrow> nat \<Rightarrow> FVec list \<Rightarrow> FVec list" where
  "InitThreadTemp nthread n_feature out =
     (if length out < nthread then resize out nthread [] else out)"

text \<open>
  \<open>PredictDMatrix\<close> (lines 184-200) and \<open>PredictBatch\<close> (lines 238-249); \<open>threads\<close> is
  \<open>omp_get_max_threads()\<close>. The size of the pool is computed in \<open>size_t\<close> and passed to
  the \<open>int\<close> parameter of \<open>InitThreadTemp\<close>. The bounds of the tree range are \<open>int32_t\<close>
  in \<open>PredictDMatrix\<close>, which \<open>PredictBatch\<close> calls with its \<open>uint32_t\<close> bounds.
\<close>

definition PredictDMatrix ::
  "nat \<Rightarrow> (nat \<Rightarrow> nat) \<Rightarrow> DMatrix \<Rightarrow> real list \<Rightarrow> GBTreeModel \<Rightarrow> int \<Rightarrow> int \<Rightarrow> error + real list" where
  "PredictDMatrix threads thr p_fmat out_preds model tree_begin tree_end =
     (let feat_vecs = InitThreadTemp (nat (int32_t (threads * kBlockOfRowsSize)))
                        (num_feature model) [] in
      bindE (foldE (\<lambda>batch (preds, feat_vecs).
                if length preds \<noteq> num_row (Info p_fmat) * num_output_group model
                then Inl (CheckFailed ''out_preds->size() == num_row * num_output_group'')
                else PredictBatchByBlockOfRowsKernel thr (SparsePageView batch) preds model
                       tree_begin tree_end feat_vecs)
              (GetBatches p_fmat) (out_preds, feat_vecs))
        (\<lambda>(preds, feat_vecs). Inr preds))"

definition PredictBatch ::
  "nat \<Rightarrow> (nat \<Rightarrow> nat) \<Rightarrow> DMatrix \<Rightarrow> real list \<Rightarrow> GBTreeModel \<Rightarrow> 32 word \<Rightarrow> 32 word
     \<Rightarrow> error + real list" where
  "PredictBatch threads thr dmat predictions model tree_begin tree_end =
     (let tree_end' = (if tree_end = 0 then of_nat (length (trees model)) else tree_end) in
      PredictDMatrix threads thr dmat predictions model (int32_t (unat tree_begin))
        (int32_t (unat tree_end')))"

text \<open>
  \<open>InitOutPredictions\<close> (lines 202-232). The warning is the sequence of pieces streamed
  into \<open>oss\<close>; the result is the output vector and the warnings logged.
\<close>

datatype piece = Str string | Num nat | Flt real

definition InitOutPredictions ::
  "MetaInfo \<Rightarrow> real list \<Rightarrow> GBTreeModel \<Rightarrow> error + (real list \<times> piece list list)" where
  "InitOutPredictions info out_preds model =
     (if num_output_group model = 0
      then Inl (CheckFailed ''num_output_group != 0'')
      else
        let n = num_output_group model * num_row info;
            margin = base_margin info;
            out_preds_h = resize out_preds n 0
        in if length margin = n
           then Inr (margin @ drop (length margin) out_preds_h, [])
           else
             let warnings =
                   (if margin \<noteq> []
                    then [[Str ''Ignoring the base margin, since it has incorrect length. '',
                           Str ''The base margin must be an array of length '']
                          @ (if num_output_group model > 1
                             then [Str ''[num_class] * [number of data points], i.e. '',
                                   Num (num_output_group model), Str '' * '', Num (num_row info),
                                   Str '' = '', Num n, Str ''. '']
                             else [Str ''[number of data points], i.e. '', Num (num_row info),
                                   Str ''. ''])
                          @ [Str ''Instead, all data points will use '',
                             Str ''base_score = '', Flt (base_score model)]]
                    else [])
             in Inr (map (\<lambda>_. base_score model) out_preds_h, warnings))"

text \<open>
  \<open>DispatchedInplacePredict\<close> (lines 251-276). The result is the predictions, the
  warnings and the data matrix \<open>p_m\<close>, whose row count is overwritten when it is given.
  The workspace has \<open>NumColumns * 8 * threads\<close> entries, each a zero entry. The bounds
  of the tree range are \<open>uint32_t\<close> here and \<open>int32_t\<close> in the kernel.
\<close>

definition DispatchedInplacePredict ::
  "nat \<Rightarrow> (nat \<Rightarrow> nat) \<Rightarrow> Adapter \<Rightarrow> DMatrix option \<Rightarrow> GBTreeModel \<Rightarrow> real option \<Rightarrow> real list
     \<Rightarrow> nat \<Rightarrow> nat \<Rightarrow> error + (real list \<times> piece list list \<times> DMatrix option)" where
  "DispatchedInplacePredict threads thr m p_m model missing out_preds tree_begin tree_end =
     (if NumColumns m \<noteq> num_feature model
      then Inl (CheckFailed ''Number of columns in data must equal to trained model.'')
      else
        let p_m' = map_option (\<lambda>d. d\<lparr>Info := (Info d)\<lparr>num_row := NumRows m\<rparr>\<rparr>) p_m;
            info = (case p_m' of
                      Some d \<Rightarrow> Info d
                    | None \<Rightarrow> \<lparr> num_row = NumRows m, base_margin = [] \<rparr>)
        in bindE (InitOutPredictions info out_preds model) (\<lambda>(predictions, warnings).
             let workspace = replicate ((NumColumns m * 8 * threads) mod 2 ^ 64) (0, 0);
                 thread_temp =
                   InitThreadTemp (nat (int32_t (threads * kBlockOfRowsSize)))
                     (num_feature model) []
             in bindE (PredictBatchByBlockOfRowsKernel thr
                         (new_AdapterView threads m missing workspace) predictions
                         model (int32_t tree_begin) (int32_t tree_end) thread_temp)
                  (\<lambda>(preds, thread_temp'). Inr (preds, warnings, p_m'))))"

text \<open>
  \<open>InplacePredict\<close> (lines 278-298). The runtime type of the \<open>dmlc::any\<close> is the
  constructor; \<open>OtherType\<close> is any type that is none of the four adapters. The result
  \<open>None\<close> is \<open>return false\<close>, which leaves the output untouched; \<open>Some\<close> is \<open>return true\<close>
  with what the dispatched prediction produced.
\<close>

datatype any =
    DenseAdapter Adapter
  | CSRAdapter Adapter
  | ArrayAdapter Adapter
  | CSRArrayAdapter Adapter
  | OtherType string

definition InplacePredict ::
  "nat \<Rightarrow> (nat \<Rightarrow> nat) \<Rightarrow> any \<Rightarrow> DMatrix option \<Rightarrow> GBTreeModel \<Rightarrow> real option \<Rightarrow> real list
     \<Rightarrow> 32 word \<Rightarrow> 32 word
     \<Rightarrow> error + (real list \<times> piece list list \<times> DMatrix option) option" where
  "InplacePredict threads thr x p_m model missing out_preds tree_begin tree_end =
     (case x of
        DenseAdapter m \<Rightarrow>
          bindE (DispatchedInplacePredict threads thr m p_m model missing out_preds
                   (unat tree_begin) (unat tree_end)) (\<lambda>r. Inr (Some r))
      | CSRAdapter m \<Rightarrow>
          bindE (DispatchedInplacePredict threads thr m p_m model missing out_preds
                   (unat tree_begin) (unat tree_end)) (\<lambda>r. Inr (Some r))
      | ArrayAdapter m \<Rightarrow>
          bindE (DispatchedInplacePredict threads thr m p_m model missing out_preds
                   (unat tree_begin) (unat tree_end)) (\<lambda>r. Inr (Some r))
      | CSRArrayAdapter m \<Rightarrow>
          bindE (DispatchedInplacePredict threads thr m p_m model missing out_preds
                   (unat tree_begin) (unat tree_end)) (\<lambda>r. Inr (Some r))
      | OtherType t \<Rightarrow> Inr None)"

subsection \<open>Leaf indices\<close>

text \<open>The tree limit of \<open>PredictLeaf\<close> and \<open>PredictContribution\<close> (lines 328-330, 366-368).\<close>

definition valid_tree_limit :: "GBTreeModel \<Rightarrow> 32 word \<Rightarrow> 32 word" where
  "valid_tree_limit model ntree_limit =
     (if ntree_limit = 0 \<or> unat ntree_limit > length (trees model)
      then of_nat (length (trees model)) else ntree_limit)"

text \<open>
  The feature vector of worker \<open>tid\<close>, initialised on first use (lines 341-344, 391-394).
  The feature count has been read into an \<open>int\<close> (lines 324, 361), which \<open>Init\<close> takes
  as a \<open>size_t\<close>.
\<close>

definition thread_feats :: "FVec list \<Rightarrow> nat \<Rightarrow> int \<Rightarrow> error + FVec" where
  "thread_feats feat_vecs tid n_feature =
     bindE (vec_at feat_vecs tid) (\<lambda>feats.
       Inr (if Size feats = 0 then Init (size_t n_feature) else feats))"

text \<open>
  \<open>PredictLeaf\<close> (lines 320-353); \<open>nthread\<close> is \<open>omp_get_max_threads()\<close> and \<open>thr i\<close> the
  worker that runs row \<open>i\<close> of a batch. \<open>leaf_ids_of_row\<close> is the loop over the trees
  (lines 346-349) and \<open>PredictLeaf_row\<close> the body of the parallel loop (lines 339-350).
\<close>

definition leaf_ids_of_row ::
  "GBTreeModel \<Rightarrow> nat \<Rightarrow> nat \<Rightarrow> FVec \<Rightarrow> real list \<Rightarrow> error + real list" where
  "leaf_ids_of_row model ntree_limit ridx feats preds =
     foldE (\<lambda>j preds.
        bindE (vec_at (trees model) j) (\<lambda>tree.
          vec_put preds (ridx * ntree_limit + j) (real_of_int (GetLeafIndex tree True feats))))
       [0..<ntree_limit] preds"

definition PredictLeaf_row ::
  "(nat \<Rightarrow> nat) \<Rightarrow> GBTreeModel \<Rightarrow> nat \<Rightarrow> SparsePage \<Rightarrow> nat \<Rightarrow> (real list \<times> FVec list)
     \<Rightarrow> error + (real list \<times> FVec list)" where
  "PredictLeaf_row thr model ntree_limit batch i =
     (\<lambda>(preds, feat_vecs).
        let tid = thr i;
            ridx = base_rowid batch + i
        in bindE (thread_feats feat_vecs tid (int32_t (num_feature model))) (\<lambda>feats0.
           bindE (vec_at (page_rows batch) i) (\<lambda>inst.
             let feats = Fill feats0 inst in
             bindE (leaf_ids_of_row model ntree_limit ridx feats preds) (\<lambda>preds'.
             bindE (vec_put feat_vecs tid (Drop feats inst))
               (\<lambda>feat_vecs'. Inr (preds', feat_vecs'))))))"

definition PredictLeaf ::
  "nat \<Rightarrow> (nat \<Rightarrow> nat) \<Rightarrow> DMatrix \<Rightarrow> real list \<Rightarrow> GBTreeModel \<Rightarrow> 32 word \<Rightarrow> error + real list" where
  "PredictLeaf nthread thr p_fmat out_preds model ntree_limit0 =
     (let feat_vecs0 = InitThreadTemp nthread (num_feature model) [];
          info = Info p_fmat;
          ntree_limit = unat (valid_tree_limit model ntree_limit0);
          preds0 = resize out_preds (num_row info * ntree_limit) 0
      in bindE (foldE (\<lambda>batch.
                  foldE (PredictLeaf_row thr model ntree_limit batch)
                    [0..<bst_omp_uint (length (page_rows batch))])
                (GetBatches p_fmat) (preds0, feat_vecs0))
           (\<lambda>(preds, feat_vecs). Inr preds))"

subsection \<open>Feature contributions\<close>

text \<open>
  The contributions of one tree (lines 406-412): the exact or the approximate algorithm
  of the tree, as the values it leaves in the zeroed buffer \<open>this_tree_contribs\<close> of
  \<open>ncolumns\<close> slots.
\<close>

definition tree_contribs ::
  "RegTree \<Rightarrow> bool \<Rightarrow> FVec \<Rightarrow> nat list option \<Rightarrow> int \<Rightarrow> int \<Rightarrow> nat \<Rightarrow> nat \<Rightarrow> real list" where
  "tree_contribs tree approximate feats group_indices num_feat_group condition
       condition_feature ncolumns =
     (if \<not> approximate
      then map (CalculateContributions tree feats group_indices num_feat_group condition
                  condition_feature) [0..<ncolumns]
      else map (CalculateContributionsApprox tree feats) [0..<ncolumns])"

text \<open>
  The number of columns (line 371): the feature count read into an \<open>int\<close> (line 361) or
  the number of feature groups, plus one, converted to \<open>size_t\<close>.
\<close>

definition contrib_columns :: "GBTreeModel \<Rightarrow> nat list option \<Rightarrow> int \<Rightarrow> nat" where
  "contrib_columns model group_indices num_feat_group =
     size_t ((if group_indices = None then int32_t (num_feature model) else num_feat_group) + 1)"

text \<open>
  The body of the loop over the groups for one row (lines 397-425): the contributions
  of the trees of group \<open>gid\<close>, weighted, are added to the slots of \<open>p_contribs\<close>, then the
  bias slot receives the base margin or the base score. \<open>add_tree_contribs\<close> is the loop
  over the columns (lines 413-416), \<open>contribs_of_trees\<close> the loop over the trees
  (lines 401-417) and \<open>add_bias\<close> the bias term (lines 420-424).
\<close>

definition add_tree_contribs ::
  "real list option \<Rightarrow> nat \<Rightarrow> real list \<Rightarrow> nat \<Rightarrow> nat \<Rightarrow> real list \<Rightarrow> error + real list" where
  "add_tree_contribs tree_weights j this_tree_contribs ncolumns p_contribs contribs =
     foldE (\<lambda>ci contribs.
        bindE (case tree_weights of None \<Rightarrow> Inr 1 | Some w \<Rightarrow> vec_at w j) (\<lambda>weight.
        bindE (vec_at contribs (p_contribs + ci)) (\<lambda>old.
          vec_put contribs (p_contribs + ci) (old + this_tree_contribs ! ci * weight))))
       [0..<ncolumns] contribs"

definition contribs_of_trees ::
  "GBTreeModel \<Rightarrow> nat \<Rightarrow> real list option \<Rightarrow> bool \<Rightarrow> nat list option \<Rightarrow> int \<Rightarrow> int \<Rightarrow> nat
     \<Rightarrow> nat \<Rightarrow> nat \<Rightarrow> FVec \<Rightarrow> nat \<Rightarrow> real list \<Rightarrow> error + real list" where
  "contribs_of_trees model ntree_limit tree_weights approximate group_indices num_feat_group
       condition condition_feature ncolumns gid feats p_contribs contribs =
     foldE (\<lambda>j contribs.
        bindE (vec_at (tree_info model) j) (\<lambda>g.
          if g \<noteq> int gid then Inr contribs
          else
            bindE (vec_at (trees model) j) (\<lambda>tree.
              add_tree_contribs tree_weights j
                (tree_contribs tree approximate feats group_indices num_feat_group condition
                   condition_feature ncolumns)
                ncolumns p_contribs contribs)))
       [0..<ntree_limit] contribs"

definition add_bias ::
  "GBTreeModel \<Rightarrow> real list \<Rightarrow> nat \<Rightarrow> nat \<Rightarrow> real list \<Rightarrow> error + real list" where
  "add_bias model margin bias cell contribs =
     bindE (vec_at contribs bias) (\<lambda>old.
       if length margin \<noteq> 0
       then bindE (vec_at margin cell) (\<lambda>m. vec_put contribs bias (old + m))
       else vec_put contribs bias (old + base_score model))"

definition contribs_of_group ::
  "GBTreeModel \<Rightarrow> nat \<Rightarrow> real list option \<Rightarrow> bool \<Rightarrow> nat list option \<Rightarrow> int \<Rightarrow> int \<Rightarrow> nat
     \<Rightarrow> real list \<Rightarrow> nat \<Rightarrow> nat \<Rightarrow> Inst \<Rightarrow> nat \<Rightarrow> nat \<Rightarrow> (real list \<times> FVec)
     \<Rightarrow> error + (real list \<times> FVec)" where
  "contribs_of_group model ntree_limit tree_weights approximate group_indices num_feat_group
       condition condition_feature margin ncolumns ngroup inst row_idx gid =
     (\<lambda>(contribs, feats0).
        let p_contribs = (row_idx * ngroup + gid) * ncolumns;
            feats = Fill feats0 inst
        in bindE (contribs_of_trees model ntree_limit tree_weights approximate group_indices
                    num_feat_group condition condition_feature ncolumns gid feats p_contribs
                    contribs) (\<lambda>contribs.
           bindE (add_bias model margin (p_contribs + ncolumns - 1) (row_idx * ngroup + gid)
                    contribs) (\<lambda>contribs'.
             Inr (contribs', Drop feats inst))))"

text \<open>
  \<open>PredictContribution\<close> (lines 355-428). \<open>ngroup\<close> is the group count read into an
  \<open>int\<close>: the loop over the groups runs only when it is positive, and then the \<open>int\<close>
  and its conversion to \<open>size_t\<close> in the index of a cell are the number \<open>nat ngroup\<close>,
  which is what the loop bodies take. The size of the output is computed in \<open>size_t\<close>
  from the unsigned group count. \<open>condition_feature\<close> is \<open>unsigned\<close>.
  \<open>contribs_of_row\<close> is the body of the parallel loop over the rows of a batch
  (lines 389-426).
\<close>

definition contribs_of_row ::
  "(nat \<Rightarrow> nat) \<Rightarrow> GBTreeModel \<Rightarrow> nat \<Rightarrow> real list option \<Rightarrow> bool \<Rightarrow> nat list option \<Rightarrow> int
     \<Rightarrow> int \<Rightarrow> nat \<Rightarrow> real list \<Rightarrow> nat \<Rightarrow> nat \<Rightarrow> SparsePage \<Rightarrow> nat \<Rightarrow> (real list \<times> FVec list)
     \<Rightarrow> error + (real list \<times> FVec list)" where
  "contribs_of_row thr model ntree_limit tree_weights approximate group_indices num_feat_group
       condition condition_feature margin ncolumns ngroup batch i =
     (\<lambda>(contribs, feat_vecs).
        let row_idx = base_rowid batch + i;
            tid = thr i
        in bindE (thread_feats feat_vecs tid (int32_t (num_feature model))) (\<lambda>feats0.
           bindE (vec_at (page_rows batch) i) (\<lambda>inst.
           bindE (foldE (contribs_of_group model ntree_limit tree_weights approximate
                           group_indices num_feat_group condition condition_feature margin
                           ncolumns ngroup inst row_idx)
                    [0..<ngroup] (contribs, feats0))
             (\<lambda>(contribs', feats').
           bindE (vec_put feat_vecs tid feats')
             (\<lambda>feat_vecs'. Inr (contribs', feat_vecs'))))))"

definition PredictContribution ::
  "nat \<Rightarrow> (nat \<Rightarrow> nat) \<Rightarrow> DMatrix \<Rightarrow> real list \<Rightarrow> GBTreeModel \<Rightarrow> 32 word \<Rightarrow> real list option
     \<Rightarrow> bool \<Rightarrow> nat list option \<Rightarrow> int \<Rightarrow> int \<Rightarrow> nat \<Rightarrow> error + real list" where
  "PredictContribution nthread thr p_fmat out_contribs model ntree_limit0 tree_weights
       approximate group_indices num_feat_group condition condition_feature =
     (let feat_vecs0 = InitThreadTemp nthread (num_feature model) [];
          info = Info p_fmat;
          ntree_limit = unat (valid_tree_limit model ntree_limit0);
          ngroup = int32_t (num_output_group model);
          ncolumns = contrib_columns model group_indices num_feat_group
      in if ngroup = 0 then Inl (CheckFailed ''ngroup != 0'')
         else if ncolumns = 0 then Inl (CheckFailed ''ncolumns != 0'')
         else
           let contribs0 = map (\<lambda>_. 0)
                 (resize out_contribs
                    ((num_row info * ncolumns * num_output_group model) mod 2 ^ 64) 0);
               margin = base_margin info
           in bindE (foldE (\<lambda>batch.
                       foldE (contribs_of_row thr model ntree_limit tree_weights approximate
                                group_indices num_feat_group condition condition_feature
                                margin ncolumns (nat ngroup) batch)
                         [0..<bst_omp_uint (length (page_rows batch))])
                     (GetBatches p_fmat) (contribs0, feat_vecs0))
                (\<lambda>(contribs, feat_vecs). Inr contribs))"

subsection \<open>Interaction contributions\<close>

text \<open>
  The composition for one row \<open>j\<close>, one group \<open>l\<close> and one conditioning feature \<open>i\<close>
  (lines 465-476); \<open>compose_cell\<close> is the body of the loop over \<open>k\<close> (lines 469-475).
  The offsets are \<open>unsigned\<close>.
\<close>

definition unsigned32 :: "nat \<Rightarrow> nat" where
  "unsigned32 n = n mod 2 ^ 32"

definition compose_cell ::
  "real list \<Rightarrow> real list \<Rightarrow> real list \<Rightarrow> nat \<Rightarrow> nat \<Rightarrow> nat \<Rightarrow> nat \<Rightarrow> real list
     \<Rightarrow> error + real list" where
  "compose_cell contribs_diag contribs_off contribs_on o_offset c_offset i k contribs =
     (if k = i
      then bindE (vec_at contribs (o_offset + i)) (\<lambda>d.
           bindE (vec_at contribs_diag (c_offset + k)) (\<lambda>a.
             vec_put contribs (o_offset + i) (d + a)))
      else bindE (vec_at contribs_on (c_offset + k)) (\<lambda>on.
           bindE (vec_at contribs_off (c_offset + k)) (\<lambda>off.
           bindE (vec_put contribs (o_offset + k) ((on - off) / 2)) (\<lambda>contribs.
           bindE (vec_at contribs (o_offset + i)) (\<lambda>d.
           bindE (vec_at contribs (o_offset + k)) (\<lambda>x.
             vec_put contribs (o_offset + i) (d - x)))))))"

definition compose_interactions ::
  "nat \<Rightarrow> nat \<Rightarrow> real list \<Rightarrow> real list \<Rightarrow> real list \<Rightarrow> nat \<Rightarrow> nat \<Rightarrow> nat \<Rightarrow> real list
     \<Rightarrow> error + real list" where
  "compose_interactions ngroup ncolumns contribs_diag contribs_off contribs_on i j l contribs =
     (let row_chunk = unsigned32 (ngroup * (ncolumns + 1) * (ncolumns + 1));
          mrow_chunk = unsigned32 ((ncolumns + 1) * (ncolumns + 1));
          crow_chunk = unsigned32 (ngroup * (ncolumns + 1));
          o_offset = unsigned32 (j * row_chunk + l * mrow_chunk + i * (ncolumns + 1));
          c_offset = unsigned32 (j * crow_chunk + l * (ncolumns + 1))
      in bindE (vec_put contribs (o_offset + i) 0) (\<lambda>contribs.
           foldE (compose_cell contribs_diag contribs_off contribs_on o_offset c_offset i)
             [0..<ncolumns + 1] contribs))"

text \<open>
  \<open>PredictInteractionContributions\<close> (lines 430-480). The three scratch vectors are
  created with their sizes; \<open>PredictContribution\<close> resizes and zeroes them. The operands
  of the conditional that gives \<open>ncolumns\<close> are the 32-bit unsigned feature count and an
  \<open>int\<close>, so its value is unsigned. \<open>ngroup\<close> is the group count read into an \<open>int\<close>;
  the sizes are computed in \<open>size_t\<close>, and the loop over the groups runs only when
  \<open>ngroup\<close> is positive, with the chunks of \<open>compose_interactions\<close> computed from the
  number \<open>nat ngroup\<close>. \<open>compose_feature\<close> is the pair of loops over the rows and the
  groups for one conditioning feature (lines 463-478).
\<close>

definition compose_feature ::
  "nat \<Rightarrow> nat \<Rightarrow> nat \<Rightarrow> real list \<Rightarrow> real list \<Rightarrow> real list \<Rightarrow> nat \<Rightarrow> real list
     \<Rightarrow> error + real list" where
  "compose_feature n_row ngroup ncolumns contribs_diag contribs_off contribs_on i contribs =
     foldE (\<lambda>j.
        foldE (compose_interactions ngroup ncolumns contribs_diag contribs_off contribs_on i j)
          [0..<ngroup])
       [0..<n_row] contribs"

definition interaction_columns :: "GBTreeModel \<Rightarrow> nat list option \<Rightarrow> int \<Rightarrow> nat" where
  "interaction_columns model group_indices num_feat_group =
     nat ((if group_indices = None then int (num_feature model) else num_feat_group)
            mod 2 ^ 32)"

definition PredictInteractionContributions ::
  "nat \<Rightarrow> (nat \<Rightarrow> nat) \<Rightarrow> DMatrix \<Rightarrow> real list \<Rightarrow> GBTreeModel \<Rightarrow> 32 word \<Rightarrow> real list option
     \<Rightarrow> bool \<Rightarrow> nat list option \<Rightarrow> int \<Rightarrow> error + real list" where
  "PredictInteractionContributions nthread thr p_fmat out_contribs model ntree_limit
       tree_weights approximate group_indices num_feat_group =
     (let info = Info p_fmat;
          ngroup = int32_t (num_output_group model);
          ncolumns = interaction_columns model group_indices num_feat_group;
          contribs0 = resize out_contribs
                        ((num_row info * size_t ngroup * (ncolumns + 1) * (ncolumns + 1))
                           mod 2 ^ 64) 0;
          scratch = replicate ((num_row info * size_t ngroup * (ncolumns + 1)) mod 2 ^ 64) 0
      in bindE (PredictContribution nthread thr p_fmat scratch model ntree_limit tree_weights
                  approximate group_indices num_feat_group 0 0) (\<lambda>contribs_diag.
         foldE (\<lambda>i contribs.
            bindE (PredictContribution nthread thr p_fmat scratch model ntree_limit
                     tree_weights approximate group_indices num_feat_group (- 1)
                     (unsigned32 i)) (\<lambda>contribs_off.
            bindE (PredictContribution nthread thr p_fmat scratch model ntree_limit
                     tree_weights approximate group_indices num_feat_group 1
                     (unsigned32 i)) (\<lambda>contribs_on.
              compose_feature (num_row info) (nat ngroup) ncolumns contribs_diag contribs_off
                contribs_on i contribs)))
           [0..<ncolumns + 1] contribs0))"

subsection \<open>What the kernel computes\<close>

text \<open>
  The vocabulary of the kernel's specification. \<open>pool_ok\<close> is the state of the pool
  between two blocks: every feature vector is empty or holds no value. \<open>fill_window\<close>,
  \<open>part_dropped\<close> and \<open>drop_window\<close> are the pool while a block is being processed.
  \<open>one_tree_body\<close> is the body of the inner loop of \<open>PredictByAllTrees\<close>.
  \<open>block_sum\<close> is the sum of the leaf values that a feature vector reaches in the trees
  of a group among \<open>[tb, te)\<close>, \<open>row_sum\<close> that sum for row \<open>r\<close> of a view, and
  \<open>kernel_out\<close> the output of the kernel: cell \<open>idx\<close> belongs to row \<open>idx div G\<close> and
  group \<open>idx mod G\<close>.
\<close>

text \<open>
  \<open>adapter_row missing row\<close> is the row that the view of an adapter makes of a line: its
  kept elements. \<open>view_rows\<close> is the list of the rows of a view, in the order of their
  indices. \<open>view_ready thr nb batch\<close> is what \<open>operator[]\<close> of the view requires when
  the blocks below \<open>nb\<close> are run by the workers \<open>thr b\<close>: nothing of the view of a
  page; of the view of an adapter, a column count that fits its 32-bit type, a
  workspace that holds the eight windows of \<open>NumColumns\<close> entries of every such worker,
  window numbers below eight, and no line with more kept elements than there are
  columns.
\<close>

definition adapter_row :: "real option \<Rightarrow> (nat \<times> real option) list \<Rightarrow> Inst" where
  "adapter_row missing row =
     concat (map (\<lambda>(column_idx, value).
                    case value of
                      None \<Rightarrow> []
                    | Some v \<Rightarrow> (if missing \<noteq> Some v then [(column_idx mod 2 ^ 32, v)] else []))
                 row)"

fun view_rows :: "DataView \<Rightarrow> Inst list" where
  "view_rows (SparsePageView p) = page_rows p"
| "view_rows (AdapterView adapter missing workspace current_unroll) =
     map (adapter_row missing) (adapter_lines adapter)"

fun view_ready :: "(nat \<Rightarrow> nat) \<Rightarrow> nat \<Rightarrow> DataView \<Rightarrow> bool" where
  "view_ready thr nb (SparsePageView p) = True"
| "view_ready thr nb (AdapterView adapter missing workspace current_unroll) =
     (NumColumns adapter < 2 ^ 32 \<and> length workspace < 2 ^ 64
      \<and> (\<forall>u \<in> set current_unroll. u < kUnroll)
      \<and> (\<forall>row \<in> set (adapter_lines adapter).
             length (adapter_row missing row) \<le> NumColumns adapter)
      \<and> (\<forall>b < nb. thr b < length current_unroll
             \<and> NumColumns adapter * kUnroll * (thr b + 1) \<le> length workspace))"

text \<open>
  \<open>view_after thr nb batch batch'\<close>: the view \<open>batch'\<close> is \<open>batch\<close> after some calls of
  \<open>operator[]\<close>, with the same rows and base row id, and ready again.
\<close>

definition view_after :: "(nat \<Rightarrow> nat) \<Rightarrow> nat \<Rightarrow> DataView \<Rightarrow> DataView \<Rightarrow> bool" where
  "view_after thr nb batch batch' =
     (view_ready thr nb batch' \<and> view_rows batch' = view_rows batch
      \<and> view_base_rowid batch' = view_base_rowid batch)"

definition pool_ok :: "nat \<Rightarrow> FVec list \<Rightarrow> bool" where
  "pool_ok nf tt = (\<forall>fv \<in> set tt. fv = [] \<or> fv = replicate nf None)"

definition fill_window :: "nat \<Rightarrow> Inst list \<Rightarrow> nat \<Rightarrow> nat \<Rightarrow> nat \<Rightarrow> FVec list \<Rightarrow> FVec list" where
  "fill_window nf rows bo fo n tt =
     map (\<lambda>k. if fo \<le> k \<and> k < fo + n then Fill (replicate nf None) (rows ! (bo + (k - fo)))
               else tt ! k) [0..<length tt]"

definition drop_window :: "nat \<Rightarrow> nat \<Rightarrow> nat \<Rightarrow> FVec list \<Rightarrow> FVec list" where
  "drop_window nf fo n tt =
     map (\<lambda>k. if fo \<le> k \<and> k < fo + n then replicate nf None else tt ! k) [0..<length tt]"

definition part_dropped :: "nat \<Rightarrow> Inst list \<Rightarrow> nat \<Rightarrow> nat \<Rightarrow> nat \<Rightarrow> nat \<Rightarrow> FVec list \<Rightarrow> FVec list" where
  "part_dropped nf rows bo fo n i tt =
     map (\<lambda>k. if fo \<le> k \<and> k < fo + i then replicate nf None
               else if fo \<le> k \<and> k < fo + n then Fill (replicate nf None) (rows ! (bo + (k - fo)))
               else tt ! k) [0..<length tt]"

definition one_tree_body ::
  "nat \<Rightarrow> nat \<Rightarrow> nat \<Rightarrow> FVec list \<Rightarrow> nat \<Rightarrow> RegTree list \<Rightarrow> nat \<Rightarrow> nat \<Rightarrow> real list \<Rightarrow> error + real list" where
  "one_tree_body po G gid tt fo trs tid =
     (\<lambda>i preds. let idx = ((po + i) * G + gid) mod 2 ^ 64 in
             bindE (vec_at tt (fo + i)) (\<lambda>feats.
             bindE (vec_at trs tid) (\<lambda>tree.
             bindE (vec_at preds idx) (\<lambda>old.
               vec_put preds idx (old + PredValueByOneTree feats tree)))))"

definition block_sum :: "GBTreeModel \<Rightarrow> nat \<Rightarrow> nat \<Rightarrow> nat \<Rightarrow> FVec \<Rightarrow> real" where
  "block_sum model tb te g feats =
     sum_list (map (\<lambda>t. PredValueByOneTree feats (trees model ! t))
                 (filter (\<lambda>t. tree_info model ! t = int g) [tb..<te]))"

definition row_sum :: "GBTreeModel \<Rightarrow> DataView \<Rightarrow> nat \<Rightarrow> nat \<Rightarrow> nat \<Rightarrow> nat \<Rightarrow> real" where
  "row_sum model batch tb te g r =
     block_sum model tb te g (Fill (Init (num_feature model)) (view_rows batch ! r))"

definition kernel_out :: "GBTreeModel \<Rightarrow> DataView \<Rightarrow> nat \<Rightarrow> nat \<Rightarrow> real list \<Rightarrow> real list" where
  "kernel_out model batch tb te out =
     map (\<lambda>idx. let r = idx div num_output_group model; g = idx mod num_output_group model in
            out ! idx
              + (if view_base_rowid batch \<le> r \<and> r < view_base_rowid batch + length (view_rows batch)
                 then row_sum model batch tb te g (r - view_base_rowid batch) else 0))
       [0..<length out]"

text \<open>
  \<open>kernel_ready\<close> collects what the kernel requires of its arguments: the checked
  leaf-vector size; a group count and a feature count below \<open>2 ^ 31\<close>, which the
  \<open>int32_t\<close> and the \<open>int\<close> of the kernel hold unchanged; a row count below \<open>2 ^ 32\<close>,
  which the cast to \<open>bst_omp_uint\<close> leaves unchanged; a view that is ready for the
  workers of the blocks; a tree range inside the model and below \<open>2 ^ 31\<close> whose
  trees are assigned to existing groups; an output vector with a cell for every row
  and group of the view; and a pool with 64 feature vectors for the worker of every
  block, each of them empty or without a value.
\<close>

definition kernel_ready ::
  "(nat \<Rightarrow> nat) \<Rightarrow> DataView \<Rightarrow> real list \<Rightarrow> GBTreeModel \<Rightarrow> nat \<Rightarrow> nat \<Rightarrow> FVec list \<Rightarrow> bool" where
  "kernel_ready thr batch out model tb te tt =
     (size_leaf_vector model = 0
      \<and> 0 < num_output_group model \<and> num_output_group model < 2 ^ 31
      \<and> num_feature model < 2 ^ 31
      \<and> length (view_rows batch) < 2 ^ 32
      \<and> view_ready thr (n_row_blocks (length (view_rows batch))) batch
      \<and> tb \<le> te \<and> te < 2 ^ 31
      \<and> te \<le> length (trees model) \<and> te \<le> length (tree_info model)
      \<and> (\<forall>t. tb \<le> t \<and> t < te \<longrightarrow>
             0 \<le> tree_info model ! t \<and> tree_info model ! t < int (num_output_group model))
      \<and> (view_base_rowid batch + length (view_rows batch)) * num_output_group model \<le> length out
      \<and> length out < 2 ^ 64
      \<and> (\<forall>b < n_row_blocks (length (view_rows batch)).
             thr b * kBlockOfRowsSize + kBlockOfRowsSize \<le> length tt)
      \<and> pool_ok (num_feature model) tt)"

text \<open>
  \<open>inplace_ready\<close> collects what the dispatched in-place prediction requires: the column
  count of the adapter is the feature count of the model; no line of the adapter has
  more kept elements than there are columns, so that it fits a window of the
  workspace; the size \<open>threads * 64\<close> of the pool fits an \<open>int\<close>; and the kernel's
  requirements hold for the adapter's rows with every block run by one of the
  \<open>threads\<close> workers.
\<close>

definition inplace_ready ::
  "nat \<Rightarrow> (nat \<Rightarrow> nat) \<Rightarrow> Adapter \<Rightarrow> real option \<Rightarrow> GBTreeModel \<Rightarrow> nat \<Rightarrow> nat \<Rightarrow> bool" where
  "inplace_ready threads thr m missing model tb te =
     (NumColumns m = num_feature model
      \<and> num_feature model < 2 ^ 31
      \<and> (\<forall>row \<in> set (adapter_lines m). length (adapter_row missing row) \<le> NumColumns m)
      \<and> threads * kBlockOfRowsSize < 2 ^ 31
      \<and> size_leaf_vector model = 0
      \<and> 0 < num_output_group model \<and> num_output_group model < 2 ^ 31
      \<and> NumRows m < 2 ^ 32
      \<and> tb \<le> te \<and> te < 2 ^ 31
      \<and> te \<le> length (trees model) \<and> te \<le> length (tree_info model)
      \<and> (\<forall>t. tb \<le> t \<and> t < te \<longrightarrow>
             0 \<le> tree_info model ! t \<and> tree_info model ! t < int (num_output_group model))
      \<and> (\<forall>b < n_row_blocks (NumRows m). thr b < threads))"

subsection \<open>What the interaction pass computes\<close>

text \<open>
  The vocabulary of the composition's specification, for the results \<open>diag\<close>, \<open>off\<close> and
  \<open>on\<close> of the three conditioned contribution passes and \<open>C\<close> columns (the selected
  features and the bias). \<open>off_diag on off c k\<close> is the interaction value of feature
  \<open>k\<close> in the cell whose contributions start at \<open>c\<close>; \<open>others_sum\<close> adds these values
  over the features below \<open>n\<close> other than \<open>i\<close>. \<open>interaction_cell\<close> is entry \<open>(i, k)\<close>
  of the matrix of cell \<open>q\<close> (row \<open>q div G\<close>, group \<open>q mod G\<close>). \<open>cells_upto\<close>,
  \<open>feature_done\<close> and \<open>interaction_matrix\<close> are the output vector while the loops over
  \<open>k\<close>, over the rows and groups, and over \<open>i\<close> advance. \<open>interaction_passes\<close> says
  that the contribution passes called by the interaction pass, on scratch vectors of
  one zero for every row, group and column, return \<open>diag\<close>, \<open>Off i\<close> and \<open>On i\<close>, and
  that the column counts of the two passes agree.
\<close>

definition off_diag :: "real list \<Rightarrow> real list \<Rightarrow> nat \<Rightarrow> nat \<Rightarrow> real" where
  "off_diag on off c k = (on ! (c + k) - off ! (c + k)) / 2"

definition others_sum :: "real list \<Rightarrow> real list \<Rightarrow> nat \<Rightarrow> nat \<Rightarrow> nat \<Rightarrow> real" where
  "others_sum on off c i n = sum_list (map (off_diag on off c) (filter (\<lambda>k. k \<noteq> i) [0..<n]))"

definition cells_upto ::
  "real list \<Rightarrow> real list \<Rightarrow> real list \<Rightarrow> nat \<Rightarrow> nat \<Rightarrow> nat \<Rightarrow> nat \<Rightarrow> real list \<Rightarrow> real list" where
  "cells_upto diag off on ofs c i k contribs =
     map (\<lambda>idx. if idx = ofs + i
                 then (if i < k then diag ! (c + i) else 0) - others_sum on off c i k
                 else if ofs \<le> idx \<and> idx < ofs + k then off_diag on off c (idx - ofs)
                 else contribs ! idx)
       [0..<length contribs]"

definition interaction_cell ::
  "real list \<Rightarrow> real list \<Rightarrow> real list \<Rightarrow> nat \<Rightarrow> nat \<Rightarrow> nat \<Rightarrow> nat \<Rightarrow> real" where
  "interaction_cell diag off on C q i k =
     (if k = i then diag ! (q * C + i) - others_sum on off (q * C) i C
      else off_diag on off (q * C) k)"

definition feature_done ::
  "real list \<Rightarrow> real list \<Rightarrow> real list \<Rightarrow> nat \<Rightarrow> nat \<Rightarrow> nat \<Rightarrow> real list \<Rightarrow> real list" where
  "feature_done diag off on C i Q s0 =
     map (\<lambda>idx. if idx div C mod C = i \<and> idx div C div C < Q
                 then interaction_cell diag off on C (idx div C div C) i (idx mod C)
                 else s0 ! idx)
       [0..<length s0]"

definition interaction_matrix ::
  "real list \<Rightarrow> (nat \<Rightarrow> real list) \<Rightarrow> (nat \<Rightarrow> real list) \<Rightarrow> nat \<Rightarrow> nat \<Rightarrow> real list \<Rightarrow> real list" where
  "interaction_matrix diag Off On C I s0 =
     map (\<lambda>idx. let i = idx div C mod C in
            if i < I
            then interaction_cell diag (Off i) (On i) C (idx div C div C) i (idx mod C)
            else s0 ! idx)
       [0..<length s0]"

definition interaction_passes ::
  "nat \<Rightarrow> (nat \<Rightarrow> nat) \<Rightarrow> DMatrix \<Rightarrow> GBTreeModel \<Rightarrow> 32 word \<Rightarrow> real list option \<Rightarrow> bool
     \<Rightarrow> nat list option \<Rightarrow> int \<Rightarrow> real list \<Rightarrow> (nat \<Rightarrow> real list) \<Rightarrow> (nat \<Rightarrow> real list) \<Rightarrow> bool" where
  "interaction_passes nthread thr p_fmat model ntree_limit tree_weights approximate group_indices
       num_feat_group diag Off On =
     (let ncolumns = interaction_columns model group_indices num_feat_group;
          cells = num_row (Info p_fmat) * num_output_group model * (ncolumns + 1);
          scratch = replicate cells 0
      in contrib_columns model group_indices num_feat_group = ncolumns + 1
         \<and> PredictContribution nthread thr p_fmat scratch model ntree_limit tree_weights
              approximate group_indices num_feat_group 0 0 = Inr diag
         \<and> (\<forall>i \<le> ncolumns.
               PredictContribution nthread thr p_fmat scratch model ntree_limit tree_weights
                 approximate group_indices num_feat_group (- 1) (unsigned32 i) = Inr (Off i)
               \<and> PredictContribution nthread thr p_fmat scratch model ntree_limit tree_weights
                   approximate group_indices num_feat_group 1 (unsigned32 i) = Inr (On i)))"

subsection \<open>Reference values and example models\<close>



definition const_tree :: "real \<Rightarrow> RegTree" where
  "const_tree v = \<lparr> GetLeafIndex = (\<lambda>_ _. 0), LeafValue = (\<lambda>_. v),
       CalculateContributions = (\<lambda>_ _ _ _ _ _. 0), CalculateContributionsApprox = (\<lambda>_ _. 0) \<rparr>"


text \<open>
  A model of two trees in one group over one feature: a stump whose leaf is 1 when
  feature 0 is missing and 2 otherwise, with leaf values 10 and 20, and a tree with
  the single leaf 0 of value 1. A data matrix of two rows, the second one empty.
\<close>

definition stump :: RegTree where
  "stump = \<lparr> GetLeafIndex = (\<lambda>_ feats. if feats ! 0 = None then 1 else 2),
       LeafValue = (\<lambda>nid. if nid = 1 then 10 else 20),
       CalculateContributions = (\<lambda>_ _ _ _ _ _. 0), CalculateContributionsApprox = (\<lambda>_ _. 0) \<rparr>"

definition stump_model :: GBTreeModel where
  "stump_model = \<lparr> trees = [stump, const_tree 1], tree_info = [0, 0], num_output_group = 1,
       num_feature = 1, base_score = 0.5, size_leaf_vector = 0 \<rparr>"

definition two_rows :: DMatrix where
  "two_rows = \<lparr> Info = \<lparr> num_row = 2, base_margin = [] \<rparr>,
       GetBatches = [\<lparr> base_rowid = 0, page_rows = [[(0, 5)], []] \<rparr>] \<rparr>"

text \<open>
  A data matrix of three rows whose base margin has two entries, and dense adapters of
  two lines with one and with two columns.
\<close>

definition short_margin :: MetaInfo where
  "short_margin = \<lparr> num_row = 3, base_margin = [7, 8] \<rparr>"

definition one_column :: Adapter where
  "one_column = \<lparr> NumColumns = 1, adapter_lines = [[(0, Some 5)], [(0, None)]] \<rparr>"

definition two_columns :: Adapter where
  "two_columns = \<lparr> NumColumns = 2, adapter_lines = [[(0, Some 5), (1, Some 6)], [(0, None), (1, Some 1)]] \<rparr>"

text \<open>
  Two data matrices whose base margin has the wrong length: one row with a margin of
  two entries, and two rows with a margin of one entry.
\<close>

definition long_margin :: DMatrix where
  "long_margin = \<lparr> Info = \<lparr> num_row = 1, base_margin = [7, 8] \<rparr>,
       GetBatches = [\<lparr> base_rowid = 0, page_rows = [[(0, 5)]] \<rparr>] \<rparr>"

definition missing_margin :: DMatrix where
  "missing_margin = \<lparr> Info = \<lparr> num_row = 2, base_margin = [7] \<rparr>,
       GetBatches = [\<lparr> base_rowid = 0, page_rows = [[(0, 5)], []] \<rparr>] \<rparr>"

text \<open>The page of \<open>two_rows\<close> as a view, and a fresh pool for one worker.\<close>

definition two_rows_view :: DataView where
  "two_rows_view = SparsePageView \<lparr> base_rowid = 0, page_rows = [[(0, 5)], []] \<rparr>"

definition fresh_pool :: "FVec list" where
  "fresh_pool = InitThreadTemp kBlockOfRowsSize 1 []"

text \<open>
  A view of 130 rows, the first 64 with feature 0 present, and a pool for two workers;
  a view of \<open>2 ^ 32\<close> empty rows.
\<close>

definition many_rows :: DataView where
  "many_rows = SparsePageView
     \<lparr> base_rowid = 0, page_rows = replicate 64 [(0, 5)] @ replicate 66 [] \<rparr>"

definition two_pools :: "FVec list" where
  "two_pools = InitThreadTemp (2 * kBlockOfRowsSize) 1 []"

definition too_many_rows :: DataView where
  "too_many_rows = SparsePageView \<lparr> base_rowid = 0, page_rows = replicate (2 ^ 32) [] \<rparr>"

text \<open>
  A model of one tree over one feature whose exact contributions depend on the
  condition, on the conditioning feature and on the column, a data matrix of one row
  without base margin, and the result \<open>shap_pass condition i\<close> of a contribution pass
  on them: two columns, the second one with the base score 0.5 added.
\<close>

definition shap_tree :: RegTree where
  "shap_tree = \<lparr> GetLeafIndex = (\<lambda>_ _. 0), LeafValue = (\<lambda>_. 1),
       CalculateContributions = (\<lambda>_ _ _ condition condition_feature ci.
          real_of_int condition * real (condition_feature + 2 * ci) + real ci + 1),
       CalculateContributionsApprox = (\<lambda>_ _. 0) \<rparr>"

definition shap_model :: GBTreeModel where
  "shap_model = \<lparr> trees = [shap_tree], tree_info = [0], num_output_group = 1,
       num_feature = 1, base_score = 0.5, size_leaf_vector = 0 \<rparr>"

definition one_row :: DMatrix where
  "one_row = \<lparr> Info = \<lparr> num_row = 1, base_margin = [] \<rparr>,
       GetBatches = [\<lparr> base_rowid = 0, page_rows = [[(0, 5)]] \<rparr>] \<rparr>"

definition shap_pass :: "int \<Rightarrow> nat \<Rightarrow> real list" where
  "shap_pass condition i =
     [real_of_int condition * real i + 1, real_of_int condition * real (i + 2) + 2.5]"

text \<open>
  A model of one tree, of constant leaf value 1 and assigned to group 1, with
  \<open>2 ^ 32 - 1\<close> output groups, and a view of two empty rows.
\<close>

definition many_groups :: GBTreeModel where
  "many_groups = \<lparr> trees = [const_tree 1], tree_info = [1], num_output_group = 4294967295,
       num_feature = 1, base_score = 0, size_leaf_vector = 0 \<rparr>"

definition two_empty_rows :: DataView where
  "two_empty_rows = SparsePageView \<lparr> base_rowid = 0, page_rows = [[], []] \<rparr>"

text \<open>A data matrix of \<open>n\<close> rows equal to \<open>inst\<close>, in one page and without base margin.\<close>

definition equal_rows :: "nat \<Rightarrow> Inst \<Rightarrow> DMatrix" where
  "equal_rows n inst = \<lparr> Info = \<lparr> num_row = n, base_margin = [] \<rparr>,
       GetBatches = [\<lparr> base_rowid = 0, page_rows = replicate n inst \<rparr>] \<rparr>"

text \<open>A data matrix of \<open>2 ^ 30 + 1\<close> rows with feature 0 present.\<close>

definition wrap_rows :: DMatrix where
  "wrap_rows = equal_rows 1073741825 [(0, 5)]"

text \<open>A CSR adapter of one column whose only line has nine elements.\<close>

definition long_line :: Adapter where
  "long_line = \<lparr> NumColumns = 1, adapter_lines = [replicate 9 (0, Some 5)] \<rparr>"

section \<open>Properties\<close>

subsection \<open>Loops, feature vectors and PredValue\<close>

lemma bindE_Inr [simp]: "bindE (Inr x) f = f x" by (simp add: bindE_def)
lemma bindE_Inl [simp]: "bindE (Inl e) f = Inl e" by (simp add: bindE_def)


lemma foldE_append:
  "foldE f (xs @ ys) s = bindE (foldE f xs s) (foldE f ys)"
  by (induction xs arbitrary: s) (auto split: sum.splits)

lemma foldE_inv:
  assumes "foldE f is s = Inr s'" "P s"
    and "\<And>i s s'. i \<in> set is \<Longrightarrow> P s \<Longrightarrow> f i s = Inr s' \<Longrightarrow> P s'"
  shows "P s'"
  using assms
proof (induction "is" arbitrary: s)
  case Nil
  then show ?case by simp
next
  case (Cons i "is")
  from Cons.prems(1) obtain t where t: "f i s = Inr t" "foldE f is t = Inr s'"
    by (auto split: sum.splits)
  have "P t" using Cons.prems(2,3) t(1) by auto
  then show ?case using Cons.IH [OF t(2)] Cons.prems(3) by auto
qed

lemma foldE_total:
  assumes "P s"
    and "\<And>i s. i \<in> set is \<Longrightarrow> P s \<Longrightarrow> \<exists>s'. f i s = Inr s' \<and> P s'"
  shows "\<exists>s'. foldE f is s = Inr s' \<and> P s'"
  using assms
proof (induction "is" arbitrary: s)
  case Nil
  then show ?case by simp
next
  case (Cons i "is")
  from Cons.prems obtain t where t: "f i s = Inr t" "P t" by fastforce
  from Cons.IH [OF t(2)] Cons.prems(2) obtain s' where "foldE f is t = Inr s'" "P s'"
    by auto
  then show ?case using t by auto
qed

lemma foldE_upt_total:
  assumes "a \<le> b" "I a s"
    and "\<And>i s. a \<le> i \<Longrightarrow> i < b \<Longrightarrow> I i s \<Longrightarrow> \<exists>s'. f i s = Inr s' \<and> I (Suc i) s'"
  shows "\<exists>s'. foldE f [a..<b] s = Inr s' \<and> I b s'"
  using assms(1,3)
proof (induction b)
  case 0
  then show ?case using assms(2) by simp
next
  case (Suc b)
  show ?case
  proof (cases "a = Suc b")
    case True
    then show ?thesis using assms(2) by simp
  next
    case False
    then have ab: "a \<le> b" using Suc.prems(1) by simp
    from Suc.IH [OF ab] Suc.prems(2) obtain t where t: "foldE f [a..<b] s = Inr t" "I b t"
      by (metis less_Suc_eq)
    from Suc.prems(2) [OF ab _ t(2)] obtain s' where "f b t = Inr s'" "I (Suc b) s'" by auto
    then show ?thesis using t ab by (simp add: foldE_append)
  qed
qed

lemma int32_t_id: "n < 2 ^ 31 \<Longrightarrow> int32_t n = int n"
  by (simp add: int32_t_def Let_def)

lemma int_0: "int 0 = 0"
  by simp

lemma size_t_int: "n < 2 ^ 64 \<Longrightarrow> size_t (int n) = n"
  by (simp add: size_t_def nat_mod_distrib)

lemma size_t_int32: "n < 2 ^ 31 \<Longrightarrow> size_t (int32_t n) = n"
  by (simp add: int32_t_id size_t_int)

lemma vec_put_length: "vec_put xs i v = Inr ys \<Longrightarrow> length ys = length xs"
  by (auto simp: vec_put_def split: if_splits)

lemma bindE_eq_Inr: "bindE m f = Inr y \<longleftrightarrow> (\<exists>x. m = Inr x \<and> f x = Inr y)"
  by (cases m) auto

lemma length_Fill [simp]: "length (Fill feats inst) = length feats"
  by (induction feats inst rule: Fill.induct) auto

lemma length_Drop [simp]: "length (Drop feats inst) = length feats"
  by (induction feats inst rule: Drop.induct) auto

lemma Drop_nth:
  "j < length feats \<Longrightarrow> Drop feats inst ! j = (if j \<in> fst ` set inst then None else feats ! j)"
  by (induction feats inst rule: Drop.induct) (auto simp: nth_list_update)

lemma Fill_nth_other:
  "j < length feats \<Longrightarrow> j \<notin> fst ` set inst \<Longrightarrow> Fill feats inst ! j = feats ! j"
  by (induction feats inst rule: Fill.induct) (auto simp: nth_list_update)

lemma Drop_Fill_Init: "Drop (Fill (replicate n None) inst) inst = replicate n None"
  by (rule nth_equalityI) (auto simp: Drop_nth Fill_nth_other)







lemma upt_0_2: "[0..<2] = [0, Suc 0]"
  by (simp add: upt_rec numeral_2_eq_2)


subsection \<open>The views\<close>

lemma view_Size_rows: "view_Size batch = length (view_rows batch)"
  by (cases batch) (simp_all add: NumRows_def)

lemma adapter_row_Cons:
  "adapter_row m ((c, value) # row) =
     (case value of None \<Rightarrow> []
      | Some v \<Rightarrow> if m \<noteq> Some v then [(c mod 2 ^ 32, v)] else []) @ adapter_row m row"
  by (simp add: adapter_row_def)

lemma store_line_Nil: "store_line m [] ws nm = Inr (ws, nm)"
  by (simp add: store_line_def)

lemma store_line_skip:
  "value = None \<or> m = value \<Longrightarrow> store_line m ((c, value) # row) ws nm = store_line m row ws nm"
  by (cases "value") (auto simp: store_line_def)

lemma store_line_keep:
  "m \<noteq> Some v \<Longrightarrow> nm < length ws \<Longrightarrow>
     store_line m ((c, Some v) # row) ws nm
       = store_line m row (ws[nm := (c mod 2 ^ 32, v)]) (Suc nm)"
  by (simp add: store_line_def vec_put_def)

lemma store_line_ok:
  "nm + length (adapter_row m row) \<le> length ws \<Longrightarrow>
     \<exists>ws'. store_line m row ws nm = Inr (ws', nm + length (adapter_row m row))
        \<and> length ws' = length ws \<and> take nm ws' = take nm ws
        \<and> take (length (adapter_row m row)) (drop nm ws') = adapter_row m row"
proof (induction row arbitrary: ws nm)
  case Nil
  show ?case by (simp add: store_line_Nil adapter_row_def)
next
  case (Cons e row)
  obtain c "value" where e: "e = (c, value)" by (cases e)
  show ?case
  proof (cases "value = None \<or> m = value")
    case True
    then have r: "adapter_row m ((c, value) # row) = adapter_row m row"
      unfolding adapter_row_Cons by (cases "value") auto
    from Cons.IH [of nm ws] Cons.prems show ?thesis
      unfolding e r store_line_skip [OF True] by simp
  next
    case False
    then obtain v where v: "value = Some v" "m \<noteq> Some v" by (cases "value") auto
    have r: "adapter_row m (e # row) = (c mod 2 ^ 32, v) # adapter_row m row"
      unfolding e adapter_row_Cons using v by simp
    let ?L = "length (adapter_row m row)"
    let ?ws1 = "ws[nm := (c mod 2 ^ 32, v)]"
    have nm: "nm < length ws" using Cons.prems r by simp
    have "Suc nm + ?L \<le> length ?ws1" using Cons.prems r by simp
    from Cons.IH [OF this] obtain ws' where
      s: "store_line m row ?ws1 (Suc nm) = Inr (ws', Suc nm + ?L)"
      and len: "length ws' = length ?ws1"
      and pre: "take (Suc nm) ws' = take (Suc nm) ?ws1"
      and win: "take ?L (drop (Suc nm) ws') = adapter_row m row"
      by blast
    have nm': "nm < length ws'" using len nm by simp
    have at: "ws' ! nm = (c mod 2 ^ 32, v)"
    proof -
      have "ws' ! nm = take (Suc nm) ws' ! nm" by simp
      also have "\<dots> = take (Suc nm) ?ws1 ! nm" by (simp only: pre)
      also have "\<dots> = (c mod 2 ^ 32, v)" using nm by simp
      finally show ?thesis .
    qed
    have before: "take nm ws' = take nm ws"
    proof -
      have "take nm ws' = take nm (take (Suc nm) ws')" by (simp add: min_def)
      also have "\<dots> = take nm (take (Suc nm) ?ws1)" by (simp only: pre)
      also have "\<dots> = take nm ws" by (simp add: min_def)
      finally show ?thesis .
    qed
    have "take (Suc ?L) (drop nm ws') = ws' ! nm # take ?L (drop (Suc nm) ws')"
      using nm' by (simp add: Cons_nth_drop_Suc [symmetric])
    then have window: "take (length (adapter_row m (e # row))) (drop nm ws') = adapter_row m (e # row)"
      unfolding r using at win by simp
    have r2: "length (adapter_row m ((c, Some v) # row)) = Suc ?L"
      using v(2) by (simp add: adapter_row_Cons)
    show ?thesis
      unfolding e v(1) store_line_keep [OF v(2) nm]
      using s len before window by (simp add: r2 e v(1))
  qed
qed

lemma window_fits:
  fixes cols :: nat
  assumes "u < 8" "cols * 8 * (t + 1) \<le> n"
  shows "cols * 8 * t + u * cols + cols \<le> n"
proof -
  have "Suc u \<le> 8" using assms(1) by simp
  then have a: "Suc u * cols \<le> 8 * cols" by (rule mult_le_mono1)
  have b: "cols * 8 * t + u * cols + cols = cols * 8 * t + Suc u * cols" by simp
  have c: "cols * 8 * (t + 1) = cols * 8 * t + 8 * cols" by (simp add: algebra_simps)
  show ?thesis unfolding b using a c assms(2) by linarith
qed

lemma view_at_ready:
  assumes "view_ready thr nb batch" "b < nb" "i < length (view_rows batch)"
  shows "\<exists>batch'. view_at (thr b) batch i = Inr (view_rows batch ! i, batch')
           \<and> view_after thr nb batch batch'"
proof (cases batch)
  case (SparsePageView p)
  then show ?thesis using assms by (simp add: vec_at_def view_after_def)
next
  case (AdapterView a m ws cu)
  let ?cols = "NumColumns a" and ?t = "thr b"
  let ?row = "adapter_lines a ! i"
  let ?u = "cu ! ?t"
  let ?beg = "?cols * 8 * ?t + ?u * ?cols"
  let ?L = "length (adapter_row m ?row)"
  from assms AdapterView have cols: "?cols < 2 ^ 32" and ws: "length ws < 2 ^ 64"
    and cu: "\<forall>u \<in> set cu. u < 8"
    and fits: "\<forall>row \<in> set (adapter_lines a). length (adapter_row m row) \<le> ?cols"
    and t: "?t < length cu" "?cols * 8 * (?t + 1) \<le> length ws"
    and i: "i < length (adapter_lines a)"
    by (simp_all add: kUnroll_def)
  have u: "?u < 8" using cu t(1) by simp
  have L: "?L \<le> ?cols" using fits i by simp
  note wf = window_fits [OF u t(2)]
  have beg: "?beg mod 2 ^ 64 = ?beg" using wf ws by simp
  have "?beg + ?L \<le> length ws" using wf L by linarith
  from store_line_ok [OF this] obtain ws' where
    s: "store_line m ?row ws ?beg = Inr (ws', ?beg + ?L)"
    and len: "length ws' = length ws"
    and win: "take ?L (drop ?beg ws') = adapter_row m ?row"
    by blast
  have sub: "subspan ws' ?beg (?beg + ?L - ?beg) = Inr (adapter_row m ?row)"
    using wf L len win by (simp add: subspan_def)
  let ?cu' = "cu[?t := (if ?u + 1 = 8 then 0 else ?u + 1)]"
  have cu': "\<forall>u \<in> set ?cu'. u < 8"
  proof
    fix x assume "x \<in> set ?cu'"
    then have "x \<in> insert (if ?u + 1 = 8 then 0 else ?u + 1) (set cu)"
      using set_update_subset_insert by fast
    then show "x < 8" using cu u by auto
  qed
  have c32: "?cols mod 2 ^ 32 = ?cols" using cols by simp
  have l: "vec_at (adapter_lines a) i = Inr ?row" using i by (simp add: vec_at_def)
  have cu_at: "vec_at cu ?t = Inr ?u" using t(1) by (simp add: vec_at_def)
  have r: "view_at ?t batch i = Inr (adapter_row m ?row, AdapterView a m ws' ?cu')"
    unfolding AdapterView view_at.simps Let_def kUnroll_def c32 l cu_at bindE_Inr beg s
      prod.case sub ..
  have "view_after thr nb batch (AdapterView a m ws' ?cu')"
    unfolding view_after_def AdapterView
    using assms(1) AdapterView cu' len by (simp add: kUnroll_def)
  moreover have "view_rows batch ! i = adapter_row m ?row"
    using AdapterView i by simp
  ultimately show ?thesis using r by simp
qed

lemma view_after_refl: "view_ready thr nb batch \<Longrightarrow> view_after thr nb batch batch"
  by (simp add: view_after_def)

lemma view_after_trans:
  "view_after thr nb batch b1 \<Longrightarrow> view_after thr nb b1 b2 \<Longrightarrow> view_after thr nb batch b2"
  by (simp add: view_after_def)

subsection \<open>The kernel over blocks of rows\<close>

lemma Init_or_self:
  "fv = [] \<or> fv = replicate nf None \<Longrightarrow> (if Size fv = 0 then Init nf else fv) = replicate nf None"
  by (auto simp: Size_def Init_def)

lemma fill_window_0: "fill_window nf rows bo fo 0 tt = tt"
  by (intro nth_equalityI) (auto simp: fill_window_def)

lemma length_fill_window [simp]: "length (fill_window nf rows bo fo n tt) = length tt"
  by (simp add: fill_window_def)

lemma fill_window_Suc:
  assumes "fo + i < length tt"
  shows "(fill_window nf rows bo fo i tt)[fo + i := Fill (replicate nf None) (rows ! (bo + i))]
           = fill_window nf rows bo fo (Suc i) tt"
  using assms by (intro nth_equalityI) (auto simp: fill_window_def nth_list_update)

lemma FVecFill_step:
  assumes "k < length s" "view_at t bt r = Inr (inst, bt')"
    "s ! k = [] \<or> s ! k = replicate nf None" "size_t nfi = nf"
  shows "bindE (vec_at s k) (\<lambda>feats0.
          let feats = (if Size feats0 = 0 then Init (size_t nfi) else feats0) in
          bindE (view_at t bt r) (\<lambda>(inst, batch').
          bindE (vec_put s k (Fill feats inst)) (\<lambda>p_feats'. Inr (p_feats', batch'))))
         = Inr (s[k := Fill (replicate nf None) inst], bt')"
  using assms by (auto simp: vec_at_def vec_put_def Size_def Init_def Let_def)

lemma FVecFill_window:
  assumes "fo + bs \<le> length tt" "bo + bs \<le> length (view_rows batch)" "pool_ok nf tt"
    and "view_ready thr nb batch" "b < nb" "size_t nfi = nf"
  shows "\<exists>batch'. FVecFill (thr b) bs bo nfi batch fo tt
                     = Inr (fill_window nf (view_rows batch) bo fo bs tt, batch')
           \<and> view_after thr nb batch batch'"
proof -
  let ?rows = "view_rows batch"
  have "\<exists>s'. foldE (\<lambda>i (p_feats, batch).
        bindE (vec_at p_feats (fo + i)) (\<lambda>feats0.
          let feats = (if Size feats0 = 0 then Init (size_t nfi) else feats0) in
          bindE (view_at (thr b) batch (bo + i)) (\<lambda>(inst, batch').
          bindE (vec_put p_feats (fo + i) (Fill feats inst))
            (\<lambda>p_feats'. Inr (p_feats', batch')))))
       [0..<bs] (tt, batch) = Inr s'
       \<and> (fst s' = fill_window nf ?rows bo fo bs tt \<and> view_after thr nb batch (snd s'))"
  proof (rule foldE_upt_total [where I = "\<lambda>i s. fst s = fill_window nf ?rows bo fo i tt
            \<and> view_after thr nb batch (snd s)"], goal_cases)
    case 1
    show ?case by simp
  next
    case 2
    show ?case using assms(4) by (simp add: fill_window_0 view_after_refl)
  next
    case (3 i s)
    obtain p bt where s: "s = (p, bt)" by (cases s)
    from 3(3) s have p: "p = fill_window nf ?rows bo fo i tt"
      and va: "view_after thr nb batch bt" by simp_all
    from va have rdy: "view_ready thr nb bt" and rows: "view_rows bt = ?rows"
      by (simp_all add: view_after_def)
    have k: "fo + i < length p" "fo + i < length tt" using 3 assms(1) p by simp_all
    have r: "bo + i < length (view_rows bt)" using 3 assms(2) rows by simp
    from view_at_ready [OF rdy assms(5) r] obtain bt' where
      at: "view_at (thr b) bt (bo + i) = Inr (?rows ! (bo + i), bt')"
      and va': "view_after thr nb bt bt'"
      using rows by auto
    have old: "p ! (fo + i) = tt ! (fo + i)"
      using 3 assms(1) p by (simp add: fill_window_def)
    have "tt ! (fo + i) \<in> set tt" using k by simp
    then have e: "p ! (fo + i) = [] \<or> p ! (fo + i) = replicate nf None"
      using assms(3) old by (auto simp: pool_ok_def)
    from FVecFill_step [OF k(1) at e assms(6)] show ?case
      using s p fill_window_Suc [OF k(2)] view_after_trans [OF va va'] by simp
  qed
  then show ?thesis by (auto simp: FVecFill_def)
qed

lemma length_drop_window [simp]: "length (drop_window nf fo n tt) = length tt"
  by (simp add: drop_window_def)

lemma pool_ok_drop_window: "pool_ok nf tt \<Longrightarrow> pool_ok nf (drop_window nf fo n tt)"
  by (auto simp: pool_ok_def drop_window_def)

lemma length_part_dropped [simp]: "length (part_dropped nf rows bo fo n i tt) = length tt"
  by (simp add: part_dropped_def)

lemma FVecDrop_window:
  assumes "fo + bs \<le> length tt" "bo + bs \<le> length (view_rows batch)"
    and "view_ready thr nb batch" "b < nb"
  shows "\<exists>batch'. FVecDrop (thr b) bs bo batch fo (fill_window nf (view_rows batch) bo fo bs tt)
                     = Inr (drop_window nf fo bs tt, batch')
           \<and> view_after thr nb batch batch'"
proof -
  let ?rows = "view_rows batch"
  have "\<exists>s'. foldE (\<lambda>i (p_feats, batch).
        bindE (vec_at p_feats (fo + i)) (\<lambda>feats.
          bindE (view_at (thr b) batch (bo + i)) (\<lambda>(inst, batch').
          bindE (vec_put p_feats (fo + i) (Drop feats inst))
            (\<lambda>p_feats'. Inr (p_feats', batch')))))
       [0..<bs] (fill_window nf ?rows bo fo bs tt, batch) = Inr s'
       \<and> (fst s' = part_dropped nf ?rows bo fo bs bs tt \<and> view_after thr nb batch (snd s'))"
  proof (rule foldE_upt_total [where I = "\<lambda>i s. fst s = part_dropped nf ?rows bo fo bs i tt
            \<and> view_after thr nb batch (snd s)"], goal_cases)
    case 1
    show ?case by simp
  next
    case 2
    have "fill_window nf ?rows bo fo bs tt = part_dropped nf ?rows bo fo bs 0 tt"
      by (intro nth_equalityI) (auto simp: part_dropped_def fill_window_def)
    then show ?case using assms(3) by (simp add: view_after_refl)
  next
    case (3 i s)
    obtain p bt where s: "s = (p, bt)" by (cases s)
    from 3(3) s have p: "p = part_dropped nf ?rows bo fo bs i tt"
      and va: "view_after thr nb batch bt" by simp_all
    from va have rdy: "view_ready thr nb bt" and rows: "view_rows bt = ?rows"
      by (simp_all add: view_after_def)
    have r: "bo + i < length (view_rows bt)" using 3 assms(2) rows by simp
    from view_at_ready [OF rdy assms(4) r] obtain bt' where
      at: "view_at (thr b) bt (bo + i) = Inr (?rows ! (bo + i), bt')"
      and va': "view_after thr nb bt bt'"
      using rows by auto
    have cur: "p ! (fo + i) = Fill (replicate nf None) (?rows ! (bo + i))"
      using 3 assms(1) p by (simp add: part_dropped_def)
    have upd: "(part_dropped nf ?rows bo fo bs i tt)[fo + i := replicate nf None]
                 = part_dropped nf ?rows bo fo bs (Suc i) tt"
      using 3 assms(1) by (intro nth_equalityI) (auto simp: part_dropped_def nth_list_update)
    have len: "length p = length tt" using p by simp
    show ?case
      using 3(2) assms(1) cur len s at upd p view_after_trans [OF va va']
      by (simp add: vec_at_def vec_put_def Drop_Fill_Init)
  qed
  moreover have "part_dropped nf ?rows bo fo bs bs tt = drop_window nf fo bs tt"
    by (simp add: part_dropped_def drop_window_def)
  ultimately show ?thesis by (auto simp: FVecDrop_def)
qed

lemma cell_inj:
  fixes G :: nat
  assumes "g < G" "g' < G"
  shows "r * G + g = r' * G + g' \<longleftrightarrow> r = r' \<and> g = g'"
proof
  assume e: "r * G + g = r' * G + g'"
  have "(r * G + g) div G = r" "(r' * G + g') div G = r'"
    using assms by simp_all
  then have "r = r'" using e by simp
  then show "r = r' \<and> g = g'" using e by simp
qed simp

lemma cell_bound:
  fixes G :: nat
  assumes "i < bs" "g < G"
  shows "(po + i) * G + g < (po + bs) * G"
proof -
  have "(po + i) * G + g < (po + i) * G + G" using assms(2) by simp
  also have "\<dots> = (po + Suc i) * G" by (simp add: algebra_simps)
  also have "\<dots> \<le> (po + bs) * G" using assms(1) by (intro mult_le_mono1) simp
  finally show ?thesis .
qed

lemma one_tree_loop:
  assumes "gid < G" "(po + bs) * G \<le> length preds" "length preds < 2 ^ 64"
    "fo + bs \<le> length tt" "tid < length trs"
  shows "\<exists>p'. foldE (one_tree_body po G gid tt fo trs tid) [0..<bs] preds = Inr p'
        \<and> length p' = length preds
        \<and> (\<forall>r g. g < G \<longrightarrow> r * G + g < length preds \<longrightarrow>
              p' ! (r * G + g) = preds ! (r * G + g)
                + (if po \<le> r \<and> r < po + bs \<and> g = gid
                   then PredValueByOneTree (tt ! (fo + (r - po))) (trs ! tid) else 0))"
proof (rule foldE_upt_total [where I = "\<lambda>i p. length p = length preds
        \<and> (\<forall>r g. g < G \<longrightarrow> r * G + g < length preds \<longrightarrow>
              p ! (r * G + g) = preds ! (r * G + g)
                + (if po \<le> r \<and> r < po + i \<and> g = gid
                   then PredValueByOneTree (tt ! (fo + (r - po))) (trs ! tid) else 0))"],
       goal_cases)
  case 1
  show ?case by simp
next
  case 2
  show ?case by simp
next
  case (3 i p)
  let ?idx = "(po + i) * G + gid"
  let ?v = "PredValueByOneTree (tt ! (fo + i)) (trs ! tid)"
  have b: "?idx < length preds"
    using cell_bound [OF 3(2) assms(1), of po] assms(2) by simp
  then have m: "?idx mod 2 ^ 64 = ?idx" using assms(3) by simp
  have len: "length p = length preds" using 3(3) by simp
  have step: "one_tree_body po G gid tt fo trs tid i p = Inr (p[?idx := p ! ?idx + ?v])"
    unfolding one_tree_body_def Let_def m
    using b len 3(2) assms(4,5) by (simp add: vec_at_def vec_put_def)
  have "p[?idx := p ! ?idx + ?v] ! (r * G + g) = preds ! (r * G + g)
                + (if po \<le> r \<and> r < po + Suc i \<and> g = gid
                   then PredValueByOneTree (tt ! (fo + (r - po))) (trs ! tid) else 0)"
    if g: "g < G" and rb: "r * G + g < length preds" for r g
  proof (cases "r = po + i \<and> g = gid")
    case True
    then have "p[?idx := p ! ?idx + ?v] ! (r * G + g) = p ! ?idx + ?v"
      using b len by simp
    moreover have "p ! ?idx = preds ! ?idx"
      using 3(3) assms(1) b by simp
    ultimately show ?thesis using True by simp
  next
    case False
    then have ne: "r * G + g \<noteq> ?idx"
      using cell_inj [OF g assms(1), of r "po + i"] by simp
    have "p[?idx := p ! ?idx + ?v] ! (r * G + g) = p ! (r * G + g)"
      using ne by simp
    also have "\<dots> = preds ! (r * G + g)
                + (if po \<le> r \<and> r < po + i \<and> g = gid
                   then PredValueByOneTree (tt ! (fo + (r - po))) (trs ! tid) else 0)"
      using 3(3) g rb by blast
    finally show ?thesis using False by (auto simp: less_Suc_eq)
  qed
  then show ?case using step len by simp
qed

lemma block_sum_empty [simp]: "block_sum model tb tb g feats = 0"
  by (simp add: block_sum_def)

lemma block_sum_Suc:
  "tb \<le> t \<Longrightarrow> block_sum model tb (Suc t) g feats =
     block_sum model tb t g feats
       + (if tree_info model ! t = int g then PredValueByOneTree feats (trees model ! t) else 0)"
  by (simp add: block_sum_def)

lemma PredictByAllTrees_one_tree:
  "PredictByAllTrees model tb te preds po G tt fo bs =
     foldE (\<lambda>tree_id preds.
        bindE (vec_at (tree_info model) tree_id) (\<lambda>g.
          foldE (one_tree_body po G (nat (g mod 2 ^ 64)) tt fo (trees model) tree_id)
            [0..<bs] preds))
       [tb..<te] preds"
  by (simp add: PredictByAllTrees_def one_tree_body_def Let_def)

lemma PredictByAllTrees_cells:
  assumes "tb \<le> te" "te \<le> length (trees model)" "te \<le> length (tree_info model)"
    and "\<forall>t. tb \<le> t \<and> t < te \<longrightarrow> 0 \<le> tree_info model ! t \<and> tree_info model ! t < int G"
    and "G < 2 ^ 32"
    and "(po + bs) * G \<le> length preds" "length preds < 2 ^ 64" "fo + bs \<le> length tt"
  shows "\<exists>p'. PredictByAllTrees model tb te preds po G tt fo bs = Inr p'
        \<and> length p' = length preds
        \<and> (\<forall>r g. g < G \<longrightarrow> r * G + g < length preds \<longrightarrow>
              p' ! (r * G + g) = preds ! (r * G + g)
                + (if po \<le> r \<and> r < po + bs
                   then block_sum model tb te g (tt ! (fo + (r - po))) else 0))"
  unfolding PredictByAllTrees_one_tree
proof (rule foldE_upt_total [where I = "\<lambda>t p. length p = length preds
        \<and> (\<forall>r g. g < G \<longrightarrow> r * G + g < length preds \<longrightarrow>
              p ! (r * G + g) = preds ! (r * G + g)
                + (if po \<le> r \<and> r < po + bs
                   then block_sum model tb t g (tt ! (fo + (r - po))) else 0))"],
       goal_cases)
  case 1
  show ?case by (rule assms(1))
next
  case 2
  show ?case by simp
next
  case (3 t p)
  let ?gi = "tree_info model ! t"
  let ?gid = "nat ?gi"
  have gi: "0 \<le> ?gi" "?gi < int G" using assms(4) 3(1,2) by auto
  then have gid: "?gid < G" by simp
  have "?gi < 2 ^ 64"
  proof -
    have "int G < 2 ^ 32" using assms(5) by (metis of_nat_less_numeral_power_cancel_iff)
    also have "(2 :: int) ^ 32 < 2 ^ 64" by simp
    finally show ?thesis using gi(2) by simp
  qed
  then have m: "nat (?gi mod 2 ^ 64) = ?gid" using gi(1) by simp
  have len: "length p = length preds" using 3(3) by simp
  have t: "t < length (trees model)" "t < length (tree_info model)"
    using 3(2) assms(2,3) by simp_all
  from one_tree_loop [where gid = ?gid and G = G and po = po and bs = bs and preds = p
      and fo = fo and tt = tt and tid = t and trs = "trees model"] gid assms(6,7,8) t(1) len
  obtain p' where p': "foldE (one_tree_body po G ?gid tt fo (trees model) t) [0..<bs] p = Inr p'"
    "length p' = length p"
    "\<forall>r g. g < G \<longrightarrow> r * G + g < length p \<longrightarrow>
              p' ! (r * G + g) = p ! (r * G + g)
                + (if po \<le> r \<and> r < po + bs \<and> g = ?gid
                   then PredValueByOneTree (tt ! (fo + (r - po))) (trees model ! t) else 0)"
    by auto
  have eqg: "(?gi = int g) = (g = ?gid)" for g using gi(1) by auto
  have "p' ! (r * G + g) = preds ! (r * G + g)
                + (if po \<le> r \<and> r < po + bs
                   then block_sum model tb (Suc t) g (tt ! (fo + (r - po))) else 0)"
    if g: "g < G" and rb: "r * G + g < length preds" for r g
  proof -
    have "p' ! (r * G + g) = p ! (r * G + g)
                + (if po \<le> r \<and> r < po + bs \<and> g = ?gid
                   then PredValueByOneTree (tt ! (fo + (r - po))) (trees model ! t) else 0)"
      using p'(3) g rb len by simp
    moreover have "p ! (r * G + g) = preds ! (r * G + g)
                + (if po \<le> r \<and> r < po + bs
                   then block_sum model tb t g (tt ! (fo + (r - po))) else 0)"
      using 3(3) g rb by blast
    ultimately show ?thesis
      by (simp add: block_sum_Suc [OF 3(1)] eqg)
  qed
  then show ?case using p'(1,2) len t(2) m by (simp add: vec_at_def)
qed

lemma block_start:
  assumes "b < n_row_blocks n"
  shows "b * 64 < n"
proof (cases "n mod 64 = 0")
  case True
  then have "Suc b \<le> n div 64"
    using assms by (simp add: n_row_blocks_def kBlockOfRowsSize_def)
  then have "Suc b * 64 \<le> n"
    by (simp only: less_eq_div_iff_mult_less_eq [of 64, simplified])
  then show ?thesis by simp
next
  case False
  then have "b \<le> n div 64"
    using assms by (simp add: n_row_blocks_def kBlockOfRowsSize_def)
  then have le: "b * 64 \<le> n"
    by (simp only: less_eq_div_iff_mult_less_eq [of 64, simplified])
  have "b * 64 \<noteq> n" using False by auto
  with le show ?thesis by simp
qed

lemma block_bounds:
  assumes "b < n_row_blocks n"
  shows "block_offset b < n" "0 < block_size_of n b" "block_size_of n b \<le> kBlockOfRowsSize"
    "block_offset b + block_size_of n b \<le> n"
    "block_offset b + block_size_of n b = min (block_offset (Suc b)) n"
proof -
  from block_start [OF assms]
  show *: "block_offset b < n" by (simp add: block_offset_def kBlockOfRowsSize_def)
  then show "0 < block_size_of n b"
    by (simp add: block_size_of_def kBlockOfRowsSize_def)
  show "block_size_of n b \<le> kBlockOfRowsSize"
    by (simp add: block_size_of_def)
  from * show "block_offset b + block_size_of n b \<le> n"
    by (simp add: block_size_of_def)
  from * show "block_offset b + block_size_of n b = min (block_offset (Suc b)) n"
    by (simp add: block_size_of_def block_offset_def kBlockOfRowsSize_def min_def, arith)
qed

lemma blocks_cover: "min (block_offset (n_row_blocks n)) n = n"
proof -
  have "n \<le> n_row_blocks n * 64"
  proof (cases "n mod 64 = 0")
    case True
    then show ?thesis by (auto simp: n_row_blocks_def kBlockOfRowsSize_def)
  next
    case False
    have "n = (n div 64) * 64 + n mod 64" by simp
    also have "\<dots> \<le> (n div 64) * 64 + 64" by (simp del: div_mult_mod_eq)
    finally show ?thesis using False by (simp add: n_row_blocks_def kBlockOfRowsSize_def)
  qed
  then show ?thesis by (simp add: block_offset_def kBlockOfRowsSize_def)
qed

lemma fill_window_nth:
  "fo + j < length tt \<Longrightarrow> j < n \<Longrightarrow>
     fill_window nf rows bo fo n tt ! (fo + j) = Fill (replicate nf None) (rows ! (bo + j))"
  by (simp add: fill_window_def)

lemma row_sum_rows:
  "view_rows bt = view_rows batch \<Longrightarrow> row_sum model bt tb te g r = row_sum model batch tb te g r"
  by (simp add: row_sum_def)

lemma kernel_block_cells:
  assumes b: "b < nb" "b < n_row_blocks n" and n: "n \<le> length (view_rows bt)"
    and view: "view_ready thr nb bt"
    and trees: "tb \<le> te" "te \<le> length (trees model)" "te \<le> length (tree_info model)"
      "\<forall>t. tb \<le> t \<and> t < te \<longrightarrow>
         0 \<le> tree_info model ! t \<and> tree_info model ! t < int (num_output_group model)"
    and te: "te < 2 ^ 31"
    and G: "num_output_group model < 2 ^ 31" and nf: "num_feature model < 2 ^ 31"
    and out: "(view_base_rowid bt + n) * num_output_group model \<le> length preds"
      "length preds < 2 ^ 64"
    and pool: "thr b * kBlockOfRowsSize + kBlockOfRowsSize \<le> length tt"
      "pool_ok (num_feature model) tt"
  shows "\<exists>p' tt' bt'. kernel_block thr model (int tb) (int te) n b (preds, tt, bt)
                         = Inr (p', tt', bt')
        \<and> length p' = length preds \<and> length tt' = length tt \<and> pool_ok (num_feature model) tt'
        \<and> view_after thr nb bt bt'
        \<and> (\<forall>r g. g < num_output_group model \<longrightarrow> r * num_output_group model + g < length preds \<longrightarrow>
              p' ! (r * num_output_group model + g) = preds ! (r * num_output_group model + g)
                + (if view_base_rowid bt + block_offset b \<le> r
                      \<and> r < view_base_rowid bt + min (block_offset (Suc b)) n
                   then row_sum model bt tb te g (r - view_base_rowid bt) else 0))"
proof -
  let ?G = "num_output_group model" and ?nf = "num_feature model"
  let ?bo = "block_offset b" and ?bs = "block_size_of n b" and ?fo = "thr b * kBlockOfRowsSize"
  let ?base = "view_base_rowid bt" and ?rows = "view_rows bt"
  let ?filled = "fill_window ?nf ?rows ?bo ?fo ?bs tt"
  note bb = block_bounds [OF b(2)]
  have G32: "?G < 2 ^ 32" using G by simp
  have cg: "size_t (int32_t ?G) = ?G" by (rule size_t_int32 [OF G])
  have ct: "size_t (int tb) = tb" "size_t (int te) = te"
    using te trees(1) by (simp_all add: size_t_int)
  have cf: "size_t (int32_t ?nf) = ?nf" by (rule size_t_int32 [OF nf])
  have fo: "?fo + ?bs \<le> length tt" using pool(1) bb(3) by simp
  have bo: "?bo + ?bs \<le> length ?rows" using bb(4) n by simp
  from FVecFill_window [OF fo bo pool(2) view b(1) cf] obtain bt1 where
    fill: "FVecFill (thr b) ?bs ?bo (int32_t ?nf) bt ?fo tt = Inr (?filled, bt1)"
    and v1: "view_after thr nb bt bt1"
    by blast
  from v1 have r1: "view_ready thr nb bt1" "view_rows bt1 = ?rows" "view_base_rowid bt1 = ?base"
    by (simp_all add: view_after_def)
  have bo1: "?bo + ?bs \<le> length (view_rows bt1)" using bo r1(2) by simp
  from FVecDrop_window [OF fo bo1 r1(1) b(1), of ?nf] obtain bt2 where
    drop: "FVecDrop (thr b) ?bs ?bo bt1 ?fo ?filled = Inr (drop_window ?nf ?fo ?bs tt, bt2)"
    and v2: "view_after thr nb bt1 bt2"
    unfolding r1(2) by blast
  have le: "?bo + ?base + ?bs \<le> ?base + n" using bb(4) by simp
  have cells: "(?bo + ?base + ?bs) * ?G \<le> length preds"
    by (rule le_trans [OF mult_le_mono1 [OF le] out(1)])
  from PredictByAllTrees_cells [OF trees G32 cells out(2), of ?fo ?filled]
  obtain p' where p': "PredictByAllTrees model tb te preds (?bo + ?base) ?G ?filled ?fo ?bs = Inr p'"
    "length p' = length preds"
    "\<forall>r g. g < ?G \<longrightarrow> r * ?G + g < length preds \<longrightarrow>
              p' ! (r * ?G + g) = preds ! (r * ?G + g)
                + (if ?bo + ?base \<le> r \<and> r < ?bo + ?base + ?bs
                   then block_sum model tb te g (?filled ! (?fo + (r - (?bo + ?base)))) else 0)"
    using fo by auto
  have "p' ! (r * ?G + g) = preds ! (r * ?G + g)
                + (if ?base + ?bo \<le> r \<and> r < ?base + min (block_offset (Suc b)) n
                   then row_sum model bt tb te g (r - ?base) else 0)"
    if g: "g < ?G" and rb: "r * ?G + g < length preds" for r g
  proof (cases "?bo + ?base \<le> r \<and> r < ?bo + ?base + ?bs")
    case True
    from p'(3) g rb
    have gen: "p' ! (r * ?G + g) = preds ! (r * ?G + g)
                + (if ?bo + ?base \<le> r \<and> r < ?bo + ?base + ?bs
                   then block_sum model tb te g (?filled ! (?fo + (r - (?bo + ?base)))) else 0)"
      by blast
    then
    have inst: "p' ! (r * ?G + g) = preds ! (r * ?G + g)
                + block_sum model tb te g (?filled ! (?fo + (r - (?bo + ?base))))"
      using True by simp
    from True have j: "r - (?bo + ?base) < ?bs" by auto
    then have "?fo + (r - (?bo + ?base)) < length tt" using fo by simp
    from fill_window_nth [OF this j]
    have "?filled ! (?fo + (r - (?bo + ?base))) = Fill (Init ?nf) (?rows ! (r - ?base))"
      using True by (simp add: Init_def)
    moreover have "?base + ?bo \<le> r \<and> r < ?base + min (block_offset (Suc b)) n"
      using True bb(5) by linarith
    ultimately show ?thesis
      using inst by (simp add: row_sum_def)
  next
    case False
    from p'(3) g rb
    have gen: "p' ! (r * ?G + g) = preds ! (r * ?G + g)
                + (if ?bo + ?base \<le> r \<and> r < ?bo + ?base + ?bs
                   then block_sum model tb te g (?filled ! (?fo + (r - (?bo + ?base)))) else 0)"
      by blast
    then have inst: "p' ! (r * ?G + g) = preds ! (r * ?G + g)"
      using False by simp
    have nb: "\<not> (?base + ?bo \<le> r \<and> r < ?base + min (block_offset (Suc b)) n)"
      using False bb(5) by linarith
    show ?thesis by (simp only: inst if_not_P [OF nb] add_0_right)
  qed
  then show ?thesis
    using fill drop p'(1,2) pool(2) r1(3) view_after_trans [OF v1 v2]
    by (simp add: kernel_block_def Let_def pool_ok_drop_window cg ct)
qed

lemma kernel_blocks_loop:
  assumes n: "n \<le> length (view_rows batch)"
    and view: "view_ready thr (n_row_blocks n) batch"
    and trees: "tb \<le> te" "te \<le> length (trees model)" "te \<le> length (tree_info model)"
      "\<forall>t. tb \<le> t \<and> t < te \<longrightarrow>
         0 \<le> tree_info model ! t \<and> tree_info model ! t < int (num_output_group model)"
    and te: "te < 2 ^ 31"
    and G: "num_output_group model < 2 ^ 31" and nf: "num_feature model < 2 ^ 31"
    and out: "(view_base_rowid batch + n) * num_output_group model \<le> length out"
      "length out < 2 ^ 64"
    and pool: "\<forall>b < n_row_blocks n. thr b * kBlockOfRowsSize + kBlockOfRowsSize \<le> length tt"
      "pool_ok (num_feature model) tt"
  shows "\<exists>s'. foldE (kernel_block thr model (int tb) (int te) n) [0..<n_row_blocks n]
                (out, tt, batch) = Inr s'
        \<and> length (fst s') = length out \<and> length (fst (snd s')) = length tt
        \<and> pool_ok (num_feature model) (fst (snd s'))
        \<and> view_after thr (n_row_blocks n) batch (snd (snd s'))
        \<and> (\<forall>r g. g < num_output_group model \<longrightarrow> r * num_output_group model + g < length out \<longrightarrow>
              fst s' ! (r * num_output_group model + g) = out ! (r * num_output_group model + g)
                + (if view_base_rowid batch \<le> r
                      \<and> r < view_base_rowid batch + min (block_offset (n_row_blocks n)) n
                   then row_sum model batch tb te g (r - view_base_rowid batch) else 0))"
proof (rule foldE_upt_total [where I = "\<lambda>b s. length (fst s) = length out
        \<and> length (fst (snd s)) = length tt
        \<and> pool_ok (num_feature model) (fst (snd s))
        \<and> view_after thr (n_row_blocks n) batch (snd (snd s))
        \<and> (\<forall>r g. g < num_output_group model \<longrightarrow> r * num_output_group model + g < length out \<longrightarrow>
              fst s ! (r * num_output_group model + g) = out ! (r * num_output_group model + g)
                + (if view_base_rowid batch \<le> r
                      \<and> r < view_base_rowid batch + min (block_offset b) n
                   then row_sum model batch tb te g (r - view_base_rowid batch) else 0))"],
       goal_cases)
  case 1
  show ?case by simp
next
  case 2
  show ?case using pool(2) view by (simp add: block_offset_def view_after_refl)
next
  case (3 b s)
  let ?G = "num_output_group model" and ?base = "view_base_rowid batch"
  let ?nb = "n_row_blocks n"
  obtain p tt0 bt where s: "s = (p, tt0, bt)" by (cases s)
  have len: "length p = length out" "length tt0 = length tt" and ok: "pool_ok (num_feature model) tt0"
    and va: "view_after thr ?nb batch bt"
    using 3(3) s by simp_all
  from va have bt: "view_ready thr ?nb bt" "view_rows bt = view_rows batch"
    "view_base_rowid bt = ?base"
    by (simp_all add: view_after_def)
  have inv: "p ! (r * ?G + g) = out ! (r * ?G + g)
                + (if ?base \<le> r \<and> r < ?base + min (block_offset b) n
                   then row_sum model batch tb te g (r - ?base) else 0)"
    if "g < ?G" "r * ?G + g < length out" for r g
    using 3(3) s that by simp
  have pl: "thr b * kBlockOfRowsSize + kBlockOfRowsSize \<le> length tt0"
    using pool(1) 3(2) len(2) by simp
  have o1: "(view_base_rowid bt + n) * ?G \<le> length p" and o2: "length p < 2 ^ 64"
    using out len(1) bt(3) by simp_all
  have nn: "n \<le> length (view_rows bt)" using n bt(2) by simp
  from kernel_block_cells [where thr = thr and b = b and n = n and bt = bt and tb = tb
      and te = te and model = model and preds = p and tt = tt0 and nb = ?nb,
      OF 3(2) 3(2) nn bt(1) trees te G nf o1 o2 pl ok]
  obtain p' tt' bt' where r: "kernel_block thr model (int tb) (int te) n b (p, tt0, bt)
                                = Inr (p', tt', bt')"
    "length p' = length p" "length tt' = length tt0" "pool_ok (num_feature model) tt'"
    "view_after thr ?nb bt bt'"
    and cells0: "\<forall>r g. g < ?G \<longrightarrow> r * ?G + g < length p \<longrightarrow>
              p' ! (r * ?G + g) = p ! (r * ?G + g)
                + (if view_base_rowid bt + block_offset b \<le> r
                      \<and> r < view_base_rowid bt + min (block_offset (Suc b)) n
                   then row_sum model bt tb te g (r - view_base_rowid bt) else 0)"
    by blast
  have cells: "\<forall>r g. g < ?G \<longrightarrow> r * ?G + g < length p \<longrightarrow>
              p' ! (r * ?G + g) = p ! (r * ?G + g)
                + (if ?base + block_offset b \<le> r \<and> r < ?base + min (block_offset (Suc b)) n
                   then row_sum model batch tb te g (r - ?base) else 0)"
    using cells0 unfolding bt(3) row_sum_rows [OF bt(2)] .
  note bb = block_bounds [OF 3(2)]
  have bo: "min (block_offset b) n = block_offset b" using bb(1) by simp
  have mono: "block_offset b \<le> min (block_offset (Suc b)) n"
    using bb(1) by (simp add: block_offset_def)
  have "p' ! (r * ?G + g) = out ! (r * ?G + g)
                + (if ?base \<le> r \<and> r < ?base + min (block_offset (Suc b)) n
                   then row_sum model batch tb te g (r - ?base) else 0)"
    if g: "g < ?G" and rb: "r * ?G + g < length out" for r g
  proof -
    from cells g rb len(1)
    have c: "p' ! (r * ?G + g) = p ! (r * ?G + g)
                + (if ?base + block_offset b \<le> r \<and> r < ?base + min (block_offset (Suc b)) n
                   then row_sum model batch tb te g (r - ?base) else 0)"
      by simp
    consider (before) "r < ?base + block_offset b" | (inblock) "?base + block_offset b \<le> r"
      by linarith
    then show ?thesis
    proof cases
      case before
      then have "r < ?base + min (block_offset (Suc b)) n" using mono by linarith
      then show ?thesis using c inv [OF g rb] before by (simp add: bo)
    next
      case inblock
      then show ?thesis using c inv [OF g rb] by (simp add: bo)
    qed
  qed
  then show ?case using r s len view_after_trans [OF va r(5)] by simp
qed

lemma kernel_spec:
  assumes "kernel_ready thr batch out model tb te tt"
  shows "\<exists>tt'. PredictBatchByBlockOfRowsKernel thr batch out model (int tb) (int te) tt
                 = Inr (kernel_out model batch tb te out, tt')
          \<and> length tt' = length tt \<and> pool_ok (num_feature model) tt'"
proof -
  let ?G = "num_output_group model" and ?base = "view_base_rowid batch"
  let ?n = "length (view_rows batch)"
  from assms have slv: "size_leaf_vector model = 0" and G0: "0 < ?G" and G: "?G < 2 ^ 31"
    and nf: "num_feature model < 2 ^ 31"
    and n32: "?n < 2 ^ 32"
    and view: "view_ready thr (n_row_blocks ?n) batch"
    and trees: "tb \<le> te" "te \<le> length (trees model)" "te \<le> length (tree_info model)"
      "\<forall>t. tb \<le> t \<and> t < te \<longrightarrow> 0 \<le> tree_info model ! t \<and> tree_info model ! t < int ?G"
    and te: "te < 2 ^ 31"
    and out: "(?base + ?n) * ?G \<le> length out" "length out < 2 ^ 64"
    and pool: "\<forall>b < n_row_blocks ?n. thr b * kBlockOfRowsSize + kBlockOfRowsSize \<le> length tt"
      "pool_ok (num_feature model) tt"
    by (simp_all add: kernel_ready_def)
  have nsize: "bst_omp_uint (view_Size batch) = ?n"
    using n32 by (simp add: bst_omp_uint_def view_Size_rows)
  from kernel_blocks_loop [OF le_refl view trees te G nf out pool]
  obtain s' where s': "foldE (kernel_block thr model (int tb) (int te) ?n) [0..<n_row_blocks ?n]
                         (out, tt, batch) = Inr s'"
    "length (fst s') = length out" "length (fst (snd s')) = length tt"
    "pool_ok (num_feature model) (fst (snd s'))"
    and cells: "\<forall>r g. g < ?G \<longrightarrow> r * ?G + g < length out \<longrightarrow>
              fst s' ! (r * ?G + g) = out ! (r * ?G + g)
                + (if ?base \<le> r \<and> r < ?base + min (block_offset (n_row_blocks ?n)) ?n
                   then row_sum model batch tb te g (r - ?base) else 0)"
    by blast
  have "fst s' = kernel_out model batch tb te out"
  proof (rule nth_equalityI)
    show "length (fst s') = length (kernel_out model batch tb te out)"
      using s'(2) by (simp add: kernel_out_def)
  next
    fix idx assume "idx < length (fst s')"
    then have i: "idx < length out" using s'(2) by simp
    have d: "idx div ?G * ?G + idx mod ?G = idx" by simp
    have m: "idx mod ?G < ?G" using G0 by simp
    from cells m i d
    have "fst s' ! (idx div ?G * ?G + idx mod ?G) = out ! (idx div ?G * ?G + idx mod ?G)
                + (if ?base \<le> idx div ?G \<and> idx div ?G < ?base + min (block_offset (n_row_blocks ?n)) ?n
                   then row_sum model batch tb te (idx mod ?G) (idx div ?G - ?base) else 0)"
      by (metis (no_types, lifting))
    then show "fst s' ! idx = kernel_out model batch tb te out ! idx"
      using i by (simp add: kernel_out_def blocks_cover Let_def)
  qed
  then obtain t2 b2 where "s' = (kernel_out model batch tb te out, t2, b2)"
    by (cases s') auto
  then show ?thesis
    using s' slv by (auto simp: PredictBatchByBlockOfRowsKernel_def nsize Let_def)
qed

lemma kernel_ready_pool:
  "kernel_ready thr batch out model tb te tt \<Longrightarrow> length tt' = length tt \<Longrightarrow>
     pool_ok (num_feature model) tt' \<Longrightarrow> kernel_ready thr batch out model tb te tt'"
  by (simp add: kernel_ready_def)

lemma kernel_out_cell:
  assumes "g < num_output_group model" "(b + r) * num_output_group model + g < length out"
    "b = view_base_rowid batch" "r < length (view_rows batch)"
  shows "kernel_out model batch tb te out ! ((b + r) * num_output_group model + g)
           = out ! ((b + r) * num_output_group model + g) + row_sum model batch tb te g r"
  using assms by (simp add: kernel_out_def Let_def)

lemma blocks_concat:
  "k \<le> n_row_blocks n \<Longrightarrow>
     concat (map (\<lambda>b. [block_offset b..<block_offset b + block_size_of n b]) [0..<k])
       = [0..<min (block_offset k) n]"
proof (induction k)
  case 0
  show ?case by (simp add: block_offset_def)
next
  case (Suc k)
  then have k: "k < n_row_blocks n" by simp
  note bb = block_bounds [OF k]
  let ?f = "\<lambda>b. [block_offset b..<block_offset b + block_size_of n b]"
  have m: "min (block_offset k) n = block_offset k" using bb(1) by simp
  have "concat (map ?f [0..<Suc k]) = concat (map ?f [0..<k]) @ ?f k" by simp
  also have "\<dots> = [0..<block_offset k] @ ?f k" using Suc.IH k m by simp
  also have "\<dots> = [0..<block_offset k + block_size_of n k]"
    by (rule upt_add_eq_append [symmetric]) simp
  finally show ?case by (simp only: bb(5))
qed

lemma n_row_blocks_ceil: "n_row_blocks n = (n + 63) div 64"
proof -
  have r: "n mod 64 < 64" by simp
  have a: "(n + 63) div 64 = n div 64 + (n mod 64 + 63) div 64"
    by (simp add: div_add1_eq [of n 63 64])
  have b: "(n mod 64 + 63) div 64 = (if n mod 64 \<noteq> 0 then 1 else 0)"
  proof (cases "n mod 64 = 0")
    case True
    then show ?thesis by simp
  next
    case False
    have "(n mod 64 + 63) div 64 = 1"
      by (rule div_nat_eqI) (use False r in simp_all)
    then show ?thesis using False by simp
  qed
  show ?thesis
    unfolding n_row_blocks_def kBlockOfRowsSize_def a b ..
qed


lemma full_blocks:
  assumes "Suc b < n_row_blocks n"
  shows "block_size_of n b = 64"
proof -
  from block_start [OF assms] have "64 + b * 64 < n" by simp
  then show ?thesis by (simp add: block_size_of_def block_offset_def kBlockOfRowsSize_def)
qed

lemma blocks_shape:
  "\<forall>b < n_row_blocks n. 0 < block_size_of n b \<and> block_size_of n b \<le> 64
           \<and> (Suc b < n_row_blocks n \<longrightarrow> block_size_of n b = 64)"
proof (intro allI impI conjI)
  fix b assume b: "b < n_row_blocks n"
  show "0 < block_size_of n b" by (rule block_bounds(2) [OF b])
  show "block_size_of n b \<le> 64" using block_bounds(3) [OF b] by (simp add: kBlockOfRowsSize_def)
  show "block_size_of n b = 64" if "Suc b < n_row_blocks n" by (rule full_blocks [OF that])
qed

lemma n_row_blocks_2: "n_row_blocks 2 = 1"
  by (simp add: n_row_blocks_def kBlockOfRowsSize_def)

lemma fresh_pool_eq: "fresh_pool = replicate 64 []"
  by (simp add: fresh_pool_def InitThreadTemp_def resize_def kBlockOfRowsSize_def)

lemma two_rows_view_fields:
  "view_base_rowid two_rows_view = 0" "view_rows two_rows_view = [[(0, 5)], []]"
  "view_ready thr nb two_rows_view"
  by (simp_all add: two_rows_view_def)

lemma stump_model_fields:
  "trees stump_model = [stump, const_tree 1]" "tree_info stump_model = [0, 0]"
  "num_output_group stump_model = 1" "num_feature stump_model = 1"
  "base_score stump_model = 0.5" "size_leaf_vector stump_model = 0"
  by (simp_all add: stump_model_def)

lemma two_rows_ready:
  "kernel_ready (\<lambda>_. 0) two_rows_view [0.5, 0.5] stump_model 0 2 fresh_pool"
proof -
  have t: "0 \<le> [0, 0 :: int] ! t \<and> [0, 0 :: int] ! t < 1" if "t < 2" for t :: nat
  proof -
    from that have "t = 0 \<or> t = 1" by auto
    then show ?thesis by auto
  qed
  show ?thesis
    unfolding kernel_ready_def two_rows_view_fields(1,2) stump_model_fields n_row_blocks_2
      fresh_pool_eq
    using t by (simp add: pool_ok_def kBlockOfRowsSize_def two_rows_view_fields(3))
qed

lemma two_rows_leaves:
  "PredValueByOneTree (Fill (Init 1) [(0, 5)]) stump = 20"
  "PredValueByOneTree (Fill (Init 1) []) stump = 10"
  "PredValueByOneTree feats (const_tree 1) = 1"
  by (simp_all add: PredValueByOneTree_def Init_def HasMissing_def stump_def const_tree_def)

lemma pooled_restore:
  assumes "pool_ok nf tt" "fv \<in> set tt"
  shows "Drop (Fill (if Size fv = 0 then Init nf else fv) inst) inst
           = (if Size fv = 0 then Init nf else fv)"
proof -
  from assms have "fv = [] \<or> fv = replicate nf None" by (auto simp: pool_ok_def)
  then have "(if Size fv = 0 then Init nf else fv) = replicate nf None" by (rule Init_or_self)
  then show ?thesis by (simp only: Drop_Fill_Init)
qed

lemma InitOutPredictions_length:
  assumes "num_output_group model \<noteq> 0"
  shows "\<exists>p w. InitOutPredictions info out_preds model = Inr (p, w)
           \<and> length p = num_output_group model * num_row info"
  using assms by (auto simp: InitOutPredictions_def Let_def resize_def)

lemma pool_ok_fresh: "pool_ok nf (InitThreadTemp n nf [])"
  by (auto simp: pool_ok_def InitThreadTemp_def resize_def)

lemma length_fresh: "length (InitThreadTemp n nf []) = n"
  by (simp add: InitThreadTemp_def resize_def)

lemma workspace_size:
  fixes cols :: nat
  assumes "cols < 2 ^ 31" "threads * 64 < 2 ^ 31"
  shows "cols * 8 * threads < 2 ^ 64"
proof -
  have "8 * threads < 2 ^ 31" using assms(2) by simp
  then have "cols * (8 * threads) < 2 ^ 31 * 2 ^ 31"
    using assms(1) by (intro mult_strict_mono) simp_all
  also have "(2 :: nat) ^ 31 * 2 ^ 31 < 2 ^ 64" by simp
  finally show ?thesis by (simp add: mult.assoc)
qed

lemma new_AdapterView_ready:
  assumes cols: "NumColumns m < 2 ^ 31" and th: "threads * kBlockOfRowsSize < 2 ^ 31"
    and fits: "\<forall>row \<in> set (adapter_lines m). length (adapter_row missing row) \<le> NumColumns m"
    and thr: "\<forall>b < nb. thr b < threads"
  shows "view_ready thr nb
           (new_AdapterView threads m missing
              (replicate ((NumColumns m * 8 * threads) mod 2 ^ 64) (0, 0)))"
proof -
  let ?cols = "NumColumns m"
  have ws: "?cols * 8 * threads < 2 ^ 64"
    using workspace_size [OF cols] th by (simp add: kBlockOfRowsSize_def)
  have c32: "?cols < 2 ^ 32" using cols by simp
  have w: "thr b < (if 0 < threads then threads else 1)
             \<and> ?cols * 8 * (thr b + 1) \<le> ?cols * 8 * threads" if "b < nb" for b
  proof -
    from thr that have t: "thr b < threads" by simp
    then have "thr b + 1 \<le> threads" by simp
    then have "?cols * 8 * (thr b + 1) \<le> ?cols * 8 * threads" by (rule mult_le_mono2)
    then show ?thesis using t by simp
  qed
  show ?thesis
    unfolding new_AdapterView_def view_ready.simps
    using ws c32 fits w by (simp add: kUnroll_def)
qed

lemma DispatchedInplacePredict_returns:
  assumes "inplace_ready threads thr m missing model tb te"
  shows "\<exists>r. DispatchedInplacePredict threads thr m p_m model missing out_preds tb te = Inr r"
proof -
  let ?G = "num_output_group model" and ?n = "NumRows m"
  let ?pm = "map_option (\<lambda>d. d\<lparr>Info := (Info d)\<lparr>num_row := NumRows m\<rparr>\<rparr>) p_m"
  let ?info = "case ?pm of Some d \<Rightarrow> Info d | None \<Rightarrow> \<lparr> num_row = NumRows m, base_margin = [] \<rparr>"
  let ?ws = "replicate ((NumColumns m * 8 * threads) mod 2 ^ 64) (0 :: nat, 0 :: real)"
  let ?view = "new_AdapterView threads m missing ?ws"
  let ?pool = "InitThreadTemp (nat (int32_t (threads * kBlockOfRowsSize))) (num_feature model) []"
  from assms have cols: "NumColumns m = num_feature model" and nf: "num_feature model < 2 ^ 31"
    and fits: "\<forall>row \<in> set (adapter_lines m). length (adapter_row missing row) \<le> NumColumns m"
    and th: "threads * kBlockOfRowsSize < 2 ^ 31"
    and slv: "size_leaf_vector model = 0"
    and G: "0 < ?G" "?G < 2 ^ 31" and n: "?n < 2 ^ 32"
    and trees: "tb \<le> te" "te \<le> length (trees model)" "te \<le> length (tree_info model)"
      "\<forall>t. tb \<le> t \<and> t < te \<longrightarrow> 0 \<le> tree_info model ! t \<and> tree_info model ! t < int ?G"
    and te: "te < 2 ^ 31"
    and thr: "\<forall>b < n_row_blocks ?n. thr b < threads"
    unfolding inplace_ready_def by blast+
  have rows: "num_row ?info = ?n" by (cases p_m) simp_all
  from InitOutPredictions_length [of model ?info out_preds] G(1) rows
  obtain p w where p: "InitOutPredictions ?info out_preds model = Inr (p, w)"
    "length p = ?G * ?n" by auto
  have v: "view_base_rowid ?view = 0" "length (view_rows ?view) = ?n"
    by (simp_all add: new_AdapterView_def NumRows_def)
  have c31: "NumColumns m < 2 ^ 31" using cols nf by simp
  have rdy: "view_ready thr (n_row_blocks ?n) ?view"
    by (rule new_AdapterView_ready [OF c31 th fits thr])
  have "?G * ?n < 2 ^ 31 * 2 ^ 32"
    using G(2) n by (intro mult_strict_mono) simp_all
  then have lt: "length p < 2 ^ 64" using p(2) by simp
  have ps: "nat (int32_t (threads * kBlockOfRowsSize)) = threads * kBlockOfRowsSize"
    by (simp only: int32_t_id [OF th] nat_int)
  have pl: "thr b * kBlockOfRowsSize + kBlockOfRowsSize \<le> length ?pool"
    if "b < n_row_blocks ?n" for b
  proof -
    from thr that have "Suc (thr b) \<le> threads" by auto
    then have "Suc (thr b) * kBlockOfRowsSize \<le> threads * kBlockOfRowsSize"
      by (rule mult_le_mono1)
    then show ?thesis by (simp add: length_fresh ps)
  qed
  have "kernel_ready thr ?view p model tb te ?pool"
    unfolding kernel_ready_def v
    using slv G nf n rdy trees te p(2) lt pl pool_ok_fresh by (simp add: mult.commute)
  from kernel_spec [OF this] obtain tt' where
    "PredictBatchByBlockOfRowsKernel thr ?view p model (int tb) (int te) ?pool
       = Inr (kernel_out model ?view tb te p, tt')" by blast
  moreover have "int32_t tb = int tb" "int32_t te = int te"
    using te trees(1) by (simp_all add: int32_t_id)
  ultimately show ?thesis
    using cols p(1) by (simp add: DispatchedInplacePredict_def Let_def)
qed

lemma one_column_ready: "inplace_ready 1 (\<lambda>_. 0) one_column None stump_model 0 2"
proof -
  have t: "0 \<le> [0, 0 :: int] ! t \<and> [0, 0 :: int] ! t < 1" if "t < 2" for t :: nat
  proof -
    from that have "t = 0 \<or> t = 1" by auto
    then show ?thesis by auto
  qed
  show ?thesis
    unfolding inplace_ready_def stump_model_fields
    using t by (simp add: one_column_def NumRows_def adapter_row_def kBlockOfRowsSize_def)
qed

subsection \<open>The composition of the interaction values\<close>

lemma others_sum_0 [simp]: "others_sum on off c i 0 = 0"
  by (simp add: others_sum_def)

lemma others_sum_Suc:
  "others_sum on off c i (Suc k) =
     others_sum on off c i k + (if k \<noteq> i then off_diag on off c k else 0)"
  by (simp add: others_sum_def)

lemma length_cells_upto [simp]:
  "length (cells_upto diag off on ofs c i k contribs) = length contribs"
  by (simp add: cells_upto_def)

lemma cells_upto_0:
  "ofs + i < length contribs \<Longrightarrow> contribs[ofs + i := 0] = cells_upto diag off on ofs c i 0 contribs"
  by (intro nth_equalityI) (auto simp: cells_upto_def nth_list_update)

lemma compose_cell_step:
  assumes k: "k < n" and i: "i < n" and o: "ofs + n \<le> length contribs"
    and d: "c + n \<le> length diag" "c + n \<le> length off" "c + n \<le> length on"
  shows "compose_cell diag off on ofs c i k (cells_upto diag off on ofs c i k contribs)
           = Inr (cells_upto diag off on ofs c i (Suc k) contribs)"
proof (cases "k = i")
  case True
  let ?s = "cells_upto diag off on ofs c i k contribs"
  have cur: "?s ! (ofs + i) = 0 - others_sum on off c i k"
    using True i o by (simp add: cells_upto_def)
  have "?s[ofs + i := ?s ! (ofs + i) + diag ! (c + k)]
          = cells_upto diag off on ofs c i (Suc k) contribs"
    using True i o
    by (intro nth_equalityI)
       (auto simp: cells_upto_def nth_list_update others_sum_Suc less_Suc_eq)
  then show ?thesis
    using True i o d by (simp add: compose_cell_def vec_at_def vec_put_def)
next
  case False
  let ?s = "cells_upto diag off on ofs c i k contribs"
  let ?x = "off_diag on off c k"
  let ?s1 = "?s[ofs + k := ?x]"
  have ne: "ofs + k \<noteq> ofs + i" using False by simp
  have cur: "?s1 ! (ofs + i) = ?s ! (ofs + i)" "?s1 ! (ofs + k) = ?x"
    using ne k o by simp_all
  have "?s1[ofs + i := ?s1 ! (ofs + i) - ?s1 ! (ofs + k)]
          = cells_upto diag off on ofs c i (Suc k) contribs"
    unfolding cur using False i k o
    by (intro nth_equalityI)
       (auto simp: cells_upto_def nth_list_update others_sum_Suc less_Suc_eq)
  then show ?thesis
    using False i k o d
    by (simp add: compose_cell_def vec_at_def vec_put_def off_diag_def [symmetric])
qed

lemma pair_bound:
  fixes G :: nat
  assumes "j < R" "l < G"
  shows "j * G + l < R * G"
  using cell_bound [OF assms, of 0] by simp

lemma window_bounds:
  fixes C :: nat
  assumes "j < R" "l < G" "i < C"
  shows "(j * G + l) * C + C \<le> R * G * C"
    and "((j * G + l) * C + i) * C + C \<le> R * G * C * C"
proof -
  have q: "j * G + l < R * G" by (rule pair_bound [OF assms(1,2)])
  then have "Suc (j * G + l) * C \<le> R * G * C" by (intro mult_le_mono1) simp
  then show "(j * G + l) * C + C \<le> R * G * C" by (simp add: add.commute)
  have "(j * G + l) * C + i < R * G * C" by (rule pair_bound [OF q assms(3)])
  then have "Suc ((j * G + l) * C + i) * C \<le> R * G * C * C" by (intro mult_le_mono1) simp
  then show "((j * G + l) * C + i) * C + C \<le> R * G * C * C" by (simp add: add.commute)
qed

lemma chunk_offsets:
  fixes C :: nat
  assumes j: "j < R" and l: "l < G" and i: "i < C" and N: "R * G * C * C < 2 ^ 32"
  shows "unsigned32 (j * unsigned32 (G * C * C) + l * unsigned32 (C * C) + i * C)
           = ((j * G + l) * C + i) * C"
    and "unsigned32 (j * unsigned32 (G * C) + l * C) = (j * G + l) * C"
proof -
  have R: "1 \<le> R" and G: "1 \<le> G" and C: "1 \<le> C" using j l i by simp_all
  have "1 * (G * C * C) \<le> R * (G * C * C)" by (rule mult_le_mono1 [OF R])
  then have a: "G * C * C \<le> R * G * C * C" by (simp only: mult.assoc mult_1)
  have "1 * (C * C) \<le> G * (C * C)" by (rule mult_le_mono1 [OF G])
  then have b: "C * C \<le> G * C * C" by (simp only: mult.assoc mult_1)
  have "(G * C) * 1 \<le> (G * C) * C" by (rule mult_le_mono2 [OF C])
  then have c: "G * C \<le> G * C * C" by (simp only: mult_1_right)
  have la: "G * C * C < 2 ^ 32" using a N by linarith
  have lb: "C * C < 2 ^ 32" using b la by linarith
  have lc: "G * C < 2 ^ 32" using c la by linarith
  have u1: "unsigned32 (G * C * C) = G * C * C" using la by (simp only: unsigned32_def mod_less)
  have u2: "unsigned32 (C * C) = C * C" using lb by (simp only: unsigned32_def mod_less)
  have u3: "unsigned32 (G * C) = G * C" using lc by (simp only: unsigned32_def mod_less)
  note w = window_bounds [OF j l i]
  have e1: "j * (G * C * C) + l * (C * C) + i * C = ((j * G + l) * C + i) * C"
    by (simp add: algebra_simps)
  have e2: "j * (G * C) + l * C = (j * G + l) * C"
    by (simp add: algebra_simps)
  have "((j * G + l) * C + i) * C < 2 ^ 32" using w(2) N C by linarith
  then show "unsigned32 (j * unsigned32 (G * C * C) + l * unsigned32 (C * C) + i * C)
           = ((j * G + l) * C + i) * C"
    unfolding u1 u2 e1 by (simp only: unsigned32_def mod_less)
  have "(R * G * C) * 1 \<le> (R * G * C) * C" by (rule mult_le_mono2 [OF C])
  then have "R * G * C \<le> R * G * C * C" by (simp only: mult_1_right)
  then have "(j * G + l) * C < 2 ^ 32" using w(1) N C by linarith
  then show "unsigned32 (j * unsigned32 (G * C) + l * C) = (j * G + l) * C"
    unfolding u3 e2 by (simp only: unsigned32_def mod_less)
qed

lemma compose_cells_loop:
  assumes i: "i < n" and o: "ofs + n \<le> length contribs"
    and d: "c + n \<le> length diag" "c + n \<le> length off" "c + n \<le> length on"
    and k: "k \<le> n"
  shows "foldE (compose_cell diag off on ofs c i) [0..<k] (cells_upto diag off on ofs c i 0 contribs)
           = Inr (cells_upto diag off on ofs c i k contribs)"
  using k
proof (induction k)
  case 0
  show ?case by simp
next
  case (Suc k)
  then have k: "k < n" by simp
  from Suc have "foldE (compose_cell diag off on ofs c i) [0..<k]
                   (cells_upto diag off on ofs c i 0 contribs)
                 = Inr (cells_upto diag off on ofs c i k contribs)" by simp
  then show ?case
    by (simp add: foldE_append compose_cell_step [OF k i o d])
qed

lemma compose_interactions_window:
  assumes j: "j < R" and l: "l < G" and i: "i < Suc n" and N: "R * G * Suc n * Suc n < 2 ^ 32"
    and len: "length contribs = R * G * Suc n * Suc n"
    and d: "length diag = R * G * Suc n" "length off = R * G * Suc n" "length on = R * G * Suc n"
  shows "compose_interactions G n diag off on i j l contribs
           = Inr (cells_upto diag off on (((j * G + l) * Suc n + i) * Suc n) ((j * G + l) * Suc n)
                    i (Suc n) contribs)"
proof -
  let ?C = "Suc n"
  let ?o = "((j * G + l) * ?C + i) * ?C" and ?c = "(j * G + l) * ?C"
  note w = window_bounds [OF j l i]
  note u = chunk_offsets [OF j l i N]
  have o: "?o + ?C \<le> length contribs" using w(2) len by simp
  have oi: "?o + i < length contribs" using o i by linarith
  have dd: "?c + ?C \<le> length diag" "?c + ?C \<le> length off" "?c + ?C \<le> length on"
    using w(1) d by simp_all
  have "compose_interactions G n diag off on i j l contribs
          = foldE (compose_cell diag off on ?o ?c i) [0..<?C] (contribs[?o + i := 0])"
    unfolding compose_interactions_def Let_def Suc_eq_plus1 [symmetric] u
    using oi by (simp add: vec_put_def)
  also have "\<dots> = Inr (cells_upto diag off on ?o ?c i ?C contribs)"
    unfolding cells_upto_0 [OF oi, of diag off on ?c]
    by (rule compose_cells_loop [OF i o dd le_refl])
  finally show ?thesis .
qed

lemma length_feature_done [simp]: "length (feature_done diag off on C i Q s0) = length s0"
  by (simp add: feature_done_def)

lemma feature_done_0: "feature_done diag off on C i 0 s0 = s0"
  by (intro nth_equalityI) (auto simp: feature_done_def)

lemma window_iff:
  fixes C :: nat
  assumes "0 < C"
  shows "(w * C \<le> idx \<and> idx < w * C + C) \<longleftrightarrow> idx div C = w"
proof
  assume a: "w * C \<le> idx \<and> idx < w * C + C"
  show "idx div C = w"
    by (rule div_nat_eqI) (use a in \<open>simp_all add: mult.commute\<close>)
next
  assume "idx div C = w"
  then have w: "w = idx div C" by simp
  have "idx div C * C \<le> idx" by simp
  moreover have "idx < idx div C * C + C"
    using assms by (metis add.commute dividend_less_div_times)
  ultimately show "w * C \<le> idx \<and> idx < w * C + C" unfolding w by simp
qed

lemma cells_upto_full:
  assumes i: "i < C" and idx: "idx < length contribs"
  shows "cells_upto diag off on (w * C) c i C contribs ! idx =
           (if idx div C = w
            then (if idx mod C = i then diag ! (c + i) - others_sum on off c i C
                  else off_diag on off c (idx mod C))
            else contribs ! idx)"
proof (cases "idx div C = w")
  case True
  have C: "0 < C" using i by simp
  from True window_iff [OF C, of w idx] have win: "w * C \<le> idx" "idx < w * C + C" by simp_all
  have m: "idx - w * C = idx mod C"
    using True by (metis add_diff_cancel_left' div_mult_mod_eq mult.commute)
  have e: "(idx = w * C + i) = (idx mod C = i)"
    using m win i by (metis add.commute le_add_diff_inverse2 mod_mult_self3 mod_less)
  show ?thesis
    using True win idx i by (simp add: cells_upto_def m e)
next
  case False
  have C: "0 < C" using i by simp
  from False window_iff [OF C, of w idx] have nw: "\<not> (w * C \<le> idx \<and> idx < w * C + C)" by simp
  then have "idx \<noteq> w * C + i" using i by auto
  then show ?thesis
    using False nw idx by (auto simp: cells_upto_def)
qed

lemma window_number:
  fixes C :: nat
  assumes "i < C"
  shows "(w = q * C + i) \<longleftrightarrow> (w div C = q \<and> w mod C = i)"
  using assms by (metis add.commute div_mult_mod_eq div_mult_self3 mod_less mod_mult_self3
      div_less add_cancel_right_left less_nat_zero_code mult.commute)

lemma compose_interactions_done:
  assumes j: "j < R" and l: "l < G" and i: "i < Suc n" and N: "R * G * Suc n * Suc n < 2 ^ 32"
    and len: "length s0 = R * G * Suc n * Suc n"
    and d: "length diag = R * G * Suc n" "length off = R * G * Suc n" "length on = R * G * Suc n"
  shows "compose_interactions G n diag off on i j l (feature_done diag off on (Suc n) i (j * G + l) s0)
           = Inr (feature_done diag off on (Suc n) i (Suc (j * G + l)) s0)"
proof -
  let ?C = "Suc n" and ?q = "j * G + l"
  let ?s = "feature_done diag off on ?C i ?q s0"
  have ls: "length ?s = R * G * ?C * ?C" using len by simp
  have "cells_upto diag off on ((?q * ?C + i) * ?C) (?q * ?C) i ?C ?s
          = feature_done diag off on ?C i (Suc ?q) s0"
  proof (rule nth_equalityI)
    show "length (cells_upto diag off on ((?q * ?C + i) * ?C) (?q * ?C) i ?C ?s)
            = length (feature_done diag off on ?C i (Suc ?q) s0)" by simp
  next
    fix idx assume "idx < length (cells_upto diag off on ((?q * ?C + i) * ?C) (?q * ?C) i ?C ?s)"
    then have idx: "idx < length ?s" "idx < length s0" by simp_all
    note wn = window_number [OF i, of "idx div ?C" ?q]
    show "cells_upto diag off on ((?q * ?C + i) * ?C) (?q * ?C) i ?C ?s ! idx
            = feature_done diag off on ?C i (Suc ?q) s0 ! idx"
    proof (cases "idx div ?C = ?q * ?C + i")
      case True
      then have w: "idx div ?C div ?C = ?q" "idx div ?C mod ?C = i" using wn by simp_all
      show ?thesis
        unfolding cells_upto_full [OF i idx(1)]
        using True w idx(2) by (simp add: feature_done_def interaction_cell_def)
    next
      case False
      then have w: "\<not> (idx div ?C div ?C = ?q \<and> idx div ?C mod ?C = i)" using wn by simp
      then have "(idx div ?C mod ?C = i \<and> idx div ?C div ?C < Suc ?q)
                   = (idx div ?C mod ?C = i \<and> idx div ?C div ?C < ?q)"
        by (auto simp: less_Suc_eq)
      then show ?thesis
        unfolding cells_upto_full [OF i idx(1)]
        using False idx(2) by (simp add: feature_done_def)
    qed
  qed
  then show ?thesis
    using compose_interactions_window [OF j l i N ls d] by simp
qed

lemma compose_group_loop:
  assumes j: "j < R" and i: "i < Suc n" and N: "R * G * Suc n * Suc n < 2 ^ 32"
    and len: "length s0 = R * G * Suc n * Suc n"
    and d: "length diag = R * G * Suc n" "length off = R * G * Suc n" "length on = R * G * Suc n"
    and l: "l \<le> G"
  shows "foldE (compose_interactions G n diag off on i j) [0..<l]
           (feature_done diag off on (Suc n) i (j * G) s0)
         = Inr (feature_done diag off on (Suc n) i (j * G + l) s0)"
  using l
proof (induction l)
  case 0
  show ?case by simp
next
  case (Suc l)
  then have l: "l < G" by simp
  from Suc have "foldE (compose_interactions G n diag off on i j) [0..<l]
           (feature_done diag off on (Suc n) i (j * G) s0)
         = Inr (feature_done diag off on (Suc n) i (j * G + l) s0)" by simp
  then show ?case
    by (simp add: foldE_append compose_interactions_done [OF j l i N len d])
qed

lemma compose_feature_done:
  assumes i: "i < Suc n" and N: "R * G * Suc n * Suc n < 2 ^ 32"
    and len: "length s0 = R * G * Suc n * Suc n"
    and d: "length diag = R * G * Suc n" "length off = R * G * Suc n" "length on = R * G * Suc n"
  shows "compose_feature R G n diag off on i s0
           = Inr (feature_done diag off on (Suc n) i (R * G) s0)"
proof -
  have "j \<le> R \<Longrightarrow>
          foldE (\<lambda>j. foldE (compose_interactions G n diag off on i j) [0..<G]) [0..<j] s0
            = Inr (feature_done diag off on (Suc n) i (j * G) s0)" for j
  proof (induction j)
    case 0
    show ?case by (simp add: feature_done_0)
  next
    case (Suc j)
    then have j: "j < R" by simp
    from Suc have "foldE (\<lambda>j. foldE (compose_interactions G n diag off on i j) [0..<G]) [0..<j] s0
            = Inr (feature_done diag off on (Suc n) i (j * G) s0)" by simp
    then show ?case
      by (simp add: foldE_append compose_group_loop [OF j i N len d le_refl] add.commute)
  qed
  from this [OF le_refl] show ?thesis by (simp add: compose_feature_def)
qed

lemma add_tree_contribs_length:
  "add_tree_contribs tw j ttc nc p c = Inr c' \<Longrightarrow> length c' = length c"
  unfolding add_tree_contribs_def
  by (erule foldE_inv [where P = "\<lambda>u. length u = length c"])
     (auto simp: bindE_eq_Inr dest: vec_put_length)

lemma contribs_of_trees_length:
  "contribs_of_trees model L tw approx gi nfg cond cf nc gid feats p c = Inr c' \<Longrightarrow>
     length c' = length c"
  unfolding contribs_of_trees_def
  by (erule foldE_inv [where P = "\<lambda>u. length u = length c"])
     (auto simp: bindE_eq_Inr split: if_splits dest: add_tree_contribs_length)

lemma add_bias_length:
  "add_bias model margin bias cell c = Inr c' \<Longrightarrow> length c' = length c"
  by (auto simp: add_bias_def bindE_eq_Inr split: if_splits dest: vec_put_length)

lemma contribs_of_group_length:
  assumes "contribs_of_group model L tw approx gi nfg cond cf margin nc G inst row gid (c, f)
             = Inr (c', f')"
  shows "length c' = length c"
  using assms
  by (auto simp: contribs_of_group_def Let_def bindE_eq_Inr
      dest!: contribs_of_trees_length add_bias_length)

lemma contribs_of_row_length:
  assumes "contribs_of_row thr model L tw approx gi nfg cond cf margin nc G batch i (c, fv)
             = Inr (c', fv')"
  shows "length c' = length c"
proof -
  from assms obtain feats0 inst s where
    s: "foldE (contribs_of_group model L tw approx gi nfg cond cf margin nc G inst
                 (base_rowid batch + i)) [0..<G] (c, feats0) = Inr s"
    and c': "c' = fst s"
    by (auto simp: contribs_of_row_def Let_def bindE_eq_Inr)
  have "length (fst s) = length c"
    by (rule foldE_inv [OF s, where P = "\<lambda>t. length (fst t) = length c"])
       (auto dest: contribs_of_group_length)
  with c' show ?thesis by simp
qed

lemma PredictContribution_length:
  assumes "PredictContribution nthread thr p_fmat out model ntl tw approx gi nfg cond cf = Inr c"
  shows "length c = (num_row (Info p_fmat) * contrib_columns model gi nfg * num_output_group model)
                      mod 2 ^ 64"
proof -
  let ?N = "(num_row (Info p_fmat) * contrib_columns model gi nfg * num_output_group model)
              mod 2 ^ 64"
  from assms obtain s where
    s: "foldE (\<lambda>batch.
          foldE (contribs_of_row thr model (unat (valid_tree_limit model ntl)) tw approx gi nfg
                   cond cf (base_margin (Info p_fmat)) (contrib_columns model gi nfg)
                   (nat (int32_t (num_output_group model))) batch)
            [0..<bst_omp_uint (length (page_rows batch))])
         (GetBatches p_fmat)
         (map (\<lambda>_. 0) (resize out ?N 0), InitThreadTemp nthread (num_feature model) []) = Inr s"
    and c: "c = fst s"
    by (auto simp: PredictContribution_def Let_def bindE_eq_Inr split: if_splits)
  have "length (fst s) = ?N"
  proof (rule foldE_inv [OF s, where P = "\<lambda>t. length (fst t) = ?N"], goal_cases)
    case 1
    show ?case by (simp add: resize_def)
  next
    case (2 batch t t')
    have "length (fst t') = length (fst t)"
      by (rule foldE_inv [OF 2(3), where P = "\<lambda>u. length (fst u) = length (fst t)"])
         (auto dest: contribs_of_row_length)
    with 2(2) show ?case by simp
  qed
  with c show ?thesis by simp
qed

lemma length_interaction_matrix [simp]:
  "length (interaction_matrix diag Off On C I s0) = length s0"
  by (simp add: interaction_matrix_def)

lemma interaction_matrix_0: "interaction_matrix diag Off On C 0 s0 = s0"
  by (intro nth_equalityI) (auto simp: interaction_matrix_def)

lemma interaction_matrix_Suc:
  assumes "length s0 = Q * C * C"
  shows "feature_done diag (Off i) (On i) C i Q (interaction_matrix diag Off On C i s0)
           = interaction_matrix diag Off On C (Suc i) s0"
proof (rule nth_equalityI)
  show "length (feature_done diag (Off i) (On i) C i Q (interaction_matrix diag Off On C i s0))
          = length (interaction_matrix diag Off On C (Suc i) s0)" by simp
next
  fix idx
  assume "idx < length (feature_done diag (Off i) (On i) C i Q (interaction_matrix diag Off On C i s0))"
  then have idx: "idx < length s0" by simp
  then have "idx < Q * C * C" using assms by simp
  then have "idx div C < Q * C" by (rule less_mult_imp_div_less)
  then have q: "idx div C div C < Q" by (rule less_mult_imp_div_less)
  show "feature_done diag (Off i) (On i) C i Q (interaction_matrix diag Off On C i s0) ! idx
          = interaction_matrix diag Off On C (Suc i) s0 ! idx"
    using idx q by (auto simp: feature_done_def interaction_matrix_def Let_def less_Suc_eq)
qed

lemma interaction_features_loop:
  assumes N: "R * G * Suc n * Suc n < 2 ^ 32"
    and len: "length s0 = R * G * Suc n * Suc n"
    and d: "length diag = R * G * Suc n"
    and off: "\<And>i. i \<le> n \<Longrightarrow> poff i = Inr (Off i) \<and> length (Off i) = R * G * Suc n"
    and on: "\<And>i. i \<le> n \<Longrightarrow> pon i = Inr (On i) \<and> length (On i) = R * G * Suc n"
    and I: "I \<le> Suc n"
  shows "foldE (\<lambda>i contribs.
            bindE (poff i) (\<lambda>contribs_off.
            bindE (pon i) (\<lambda>contribs_on.
              compose_feature R G n diag contribs_off contribs_on i contribs)))
           [0..<I] s0
         = Inr (interaction_matrix diag Off On (Suc n) I s0)"
  using I
proof (induction I)
  case 0
  show ?case by (simp add: interaction_matrix_0)
next
  case (Suc I)
  then have i: "I < Suc n" "I \<le> n" by simp_all
  let ?s = "interaction_matrix diag Off On (Suc n) I s0"
  have ls: "length ?s = R * G * Suc n * Suc n" using len by simp
  from Suc have prev: "foldE (\<lambda>i contribs.
            bindE (poff i) (\<lambda>contribs_off.
            bindE (pon i) (\<lambda>contribs_on.
              compose_feature R G n diag contribs_off contribs_on i contribs)))
           [0..<I] s0 = Inr ?s" by simp
  have "compose_feature R G n diag (Off I) (On I) I ?s
          = Inr (feature_done diag (Off I) (On I) (Suc n) I (R * G) ?s)"
    using off [OF i(2)] on [OF i(2)] by (intro compose_feature_done [OF i(1) N ls d]) simp_all
  also have "feature_done diag (Off I) (On I) (Suc n) I (R * G) ?s
               = interaction_matrix diag Off On (Suc n) (Suc I) s0"
    by (rule interaction_matrix_Suc [OF len])
  finally show ?case
    using prev off [OF i(2)] on [OF i(2)] by (simp add: foldE_append)
qed

lemma interaction_spec:
  assumes small: "num_row (Info p_fmat) * num_output_group model
                    * Suc (interaction_columns model gi nfg)
                    * Suc (interaction_columns model gi nfg) < 2 ^ 32"
    and G31: "num_output_group model < 2 ^ 31"
    and passes: "interaction_passes nthread thr p_fmat model ntl tw approx gi nfg diag Off On"
  shows "PredictInteractionContributions nthread thr p_fmat out model ntl tw approx gi nfg
           = Inr (interaction_matrix diag Off On (Suc (interaction_columns model gi nfg))
                    (Suc (interaction_columns model gi nfg))
                    (resize out (num_row (Info p_fmat) * num_output_group model
                                   * Suc (interaction_columns model gi nfg)
                                   * Suc (interaction_columns model gi nfg)) 0))"
    and "length diag = num_row (Info p_fmat) * num_output_group model
                         * Suc (interaction_columns model gi nfg)"
    and "\<forall>i \<le> interaction_columns model gi nfg.
           length (Off i) = num_row (Info p_fmat) * num_output_group model
                              * Suc (interaction_columns model gi nfg)
           \<and> length (On i) = num_row (Info p_fmat) * num_output_group model
                               * Suc (interaction_columns model gi nfg)"
proof -
  let ?n = "interaction_columns model gi nfg" and ?R = "num_row (Info p_fmat)"
  let ?G = "num_output_group model"
  let ?scr = "replicate (?R * ?G * Suc ?n) (0 :: real)"
  let ?pc = "\<lambda>c cf. PredictContribution nthread thr p_fmat ?scr model ntl tw approx gi nfg c cf"
  let ?s0 = "resize out (?R * ?G * Suc ?n * Suc ?n) 0"
  note N = small
  from passes have cc: "contrib_columns model gi nfg = Suc ?n"
    and pd: "?pc 0 0 = Inr diag"
    and po: "\<And>i. i \<le> ?n \<Longrightarrow> ?pc (- 1) (unsigned32 i) = Inr (Off i)"
    and pn: "\<And>i. i \<le> ?n \<Longrightarrow> ?pc 1 (unsigned32 i) = Inr (On i)"
    by (simp_all add: interaction_passes_def Let_def)
  have "(?R * ?G * Suc ?n) * 1 \<le> (?R * ?G * Suc ?n) * Suc ?n" by (rule mult_le_mono2) simp
  then have N1: "?R * ?G * Suc ?n < 2 ^ 32" using N by simp
  have m1: "(?R * ?G * Suc ?n) mod 2 ^ 64 = ?R * ?G * Suc ?n"
    using N1 by simp
  have m2: "(?R * ?G * Suc ?n * Suc ?n) mod 2 ^ 64 = ?R * ?G * Suc ?n * Suc ?n"
    using N by simp
  have cg: "size_t (int32_t ?G) = ?G" "nat (int32_t ?G) = ?G"
    by (rule size_t_int32 [OF G31]) (simp only: int32_t_id [OF G31] nat_int)
  have lenc: "length c = ?R * ?G * Suc ?n" if "?pc c0 cf = Inr c" for c0 cf c
  proof -
    have "?R * Suc ?n * ?G = ?R * ?G * Suc ?n" by (simp only: mult.assoc mult.commute [of ?G])
    then show ?thesis
      using PredictContribution_length [OF that] m1 by (simp only: cc)
  qed
  show d: "length diag = ?R * ?G * Suc ?n" by (rule lenc [OF pd])
  show "\<forall>i \<le> ?n. length (Off i) = ?R * ?G * Suc ?n \<and> length (On i) = ?R * ?G * Suc ?n"
    using lenc po pn by blast
  have len: "length ?s0 = ?R * ?G * Suc ?n * Suc ?n" by (simp add: resize_def)
  have off: "?pc (- 1) (unsigned32 i) = Inr (Off i) \<and> length (Off i) = ?R * ?G * Suc ?n"
    if "i \<le> ?n" for i using po [OF that] lenc by blast
  have on: "?pc 1 (unsigned32 i) = Inr (On i) \<and> length (On i) = ?R * ?G * Suc ?n"
    if "i \<le> ?n" for i using pn [OF that] lenc by blast
  from interaction_features_loop [where poff = "\<lambda>i. ?pc (- 1) (unsigned32 i)"
      and pon = "\<lambda>i. ?pc 1 (unsigned32 i)", OF N len d off on le_refl]
  show "PredictInteractionContributions nthread thr p_fmat out model ntl tw approx gi nfg
           = Inr (interaction_matrix diag Off On (Suc ?n) (Suc ?n) ?s0)"
    using pd
    unfolding PredictInteractionContributions_def Let_def cg Suc_eq_plus1 [symmetric] m1 m2
    by simp
qed

lemma interaction_matrix_cell:
  assumes "i < C" "k < C" "((q * C + i) * C + k) < length s0"
  shows "interaction_matrix diag Off On C C s0 ! ((q * C + i) * C + k)
           = interaction_cell diag (Off i) (On i) C q i k"
proof -
  have a: "((q * C + i) * C + k) div C = q * C + i" "((q * C + i) * C + k) mod C = k"
    using assms(2) by simp_all
  have b: "(q * C + i) div C = q" "(q * C + i) mod C = i"
    using assms(1) by simp_all
  show ?thesis
    using assms by (simp add: interaction_matrix_def a b Let_def)
qed

lemma matrix_address:
  fixes C :: nat
  shows "j * (G * C * C) + l * (C * C) + i * C + k = ((j * G + l) * C + i) * C + k"
    and "j * (G * C) + l * C + k = (j * G + l) * C + k"
  by (simp_all add: algebra_simps)

lemma matrix_address_bound:
  fixes C :: nat
  assumes "j < R" "l < G" "i < C" "k < C"
  shows "((j * G + l) * C + i) * C + k < R * G * C * C"
  using window_bounds(2) [OF assms(1,2,3)] assms(4) by linarith

lemma others_sum_set:
  "others_sum on off c i n = (\<Sum>k \<in> {..<n} - {i}. off_diag on off c k)"
proof -
  have "set (filter (\<lambda>k. k \<noteq> i) [0..<n]) = {..<n} - {i}" by auto
  moreover have "distinct (filter (\<lambda>k. k \<noteq> i) [0..<n])" by simp
  ultimately show ?thesis
    unfolding others_sum_def by (metis sum_list_distinct_conv_sum_set)
qed

lemma interaction_cell_at:
  fixes C :: nat
  assumes "j < R" "l < G" "i < C" "k < C"
  shows "interaction_matrix diag Off On C C (resize out (R * G * C * C) 0)
           ! (j * (G * C * C) + l * (C * C) + i * C + k)
         = interaction_cell diag (Off i) (On i) C (j * G + l) i k"
proof -
  have b: "((j * G + l) * C + i) * C + k < length (resize out (R * G * C * C) (0 :: real))"
    using matrix_address_bound [OF assms] by (simp add: resize_def)
  show ?thesis
    unfolding matrix_address by (rule interaction_matrix_cell [OF assms(3,4) b])
qed

lemma interaction_cell_row_sum:
  assumes "i < C"
  shows "(\<Sum>k < C. interaction_cell diag off on C q i k) = diag ! (q * C + i)"
proof -
  let ?f = "\<lambda>k. interaction_cell diag off on C q i k"
  have "(\<Sum>k < C. ?f k) = ?f i + (\<Sum>k \<in> {..<C} - {i}. ?f k)"
    by (rule sum.remove) (use assms in simp_all)
  also have "(\<Sum>k \<in> {..<C} - {i}. ?f k) = (\<Sum>k \<in> {..<C} - {i}. off_diag on off (q * C) k)"
    by (rule sum.cong [OF refl]) (simp add: interaction_cell_def)
  finally show ?thesis
    by (simp add: interaction_cell_def others_sum_set)
qed

lemma shap_model_fields:
  "trees shap_model = [shap_tree]" "tree_info shap_model = [0]"
  "num_output_group shap_model = 1" "num_feature shap_model = 1"
  "base_score shap_model = 0.5" "size_leaf_vector shap_model = 0"
  by (simp_all add: shap_model_def)

lemma shap_columns:
  "interaction_columns shap_model None 0 = 1" "contrib_columns shap_model None 0 = 2"
  by (simp_all add: interaction_columns_def contrib_columns_def shap_model_fields
      int32_t_def size_t_def)

lemma zeroed_resize: "map (\<lambda>_. 0 :: real) (resize xs n 0) = replicate n 0"
  by (rule nth_equalityI) (auto simp: resize_def nth_append)

lemma shap_pass_eval:
  "PredictContribution 1 (\<lambda>_. 0) one_row scratch shap_model 0 None False None 0 condition cf
     = Inr (shap_pass condition cf)"
proof -
  have lim: "unat (valid_tree_limit shap_model 0) = 1"
    by (simp add: valid_tree_limit_def shap_model_fields)
  have r2: "replicate 2 (0 :: real) = [0, 0]" by (simp add: eval_nat_numeral)
  have pool: "InitThreadTemp (Suc 0) (Suc 0) [] = [[]]"
    by (simp add: InitThreadTemp_def resize_def)
  have tc: "tree_contribs shap_tree False feats None 0 condition cf 2
              = [real_of_int condition * real cf + 1, real_of_int condition * real (cf + 2) + 2]"
    for feats
    by (simp add: tree_contribs_def shap_tree_def upt_0_2)
  show ?thesis
    unfolding PredictContribution_def Let_def lim shap_columns shap_model_fields
    by (simp add: one_row_def zeroed_resize r2 pool contribs_of_row_def contribs_of_group_def
        contribs_of_trees_def add_tree_contribs_def add_bias_def bst_omp_uint_def
        thread_feats_def shap_model_fields tc upt_0_2 vec_at_def vec_put_def Size_def Init_def
        shap_pass_def Let_def int32_t_def size_t_def)
qed


lemma one_row_fields: "num_row (Info one_row) = 1"
  by (simp add: one_row_def)

lemma shap_passes:
  "interaction_passes 1 (\<lambda>_. 0) one_row shap_model 0 None False None 0 (shap_pass 0 0)
     (\<lambda>i. shap_pass (- 1) (unsigned32 i)) (\<lambda>i. shap_pass 1 (unsigned32 i))"
  unfolding interaction_passes_def Let_def shap_columns
  by (simp add: shap_pass_eval [unfolded One_nat_def] one_row_fields shap_model_fields)

lemma shap_small:
  "num_row (Info one_row) * num_output_group shap_model
     * Suc (interaction_columns shap_model None 0) * Suc (interaction_columns shap_model None 0)
   < 2 ^ 32"
  "num_output_group shap_model < 2 ^ 31"
  by (simp_all add: one_row_fields shap_model_fields shap_columns)

subsection \<open>Contributions of a matrix of equal rows\<close>

lemma foldE_lift:
  assumes "\<And>i s s'. i \<in> set is \<Longrightarrow> g i s = Inr s' \<Longrightarrow> f i (h s) = Inr (h s')"
    and "foldE g is s = Inr s'"
  shows "foldE f is (h s) = Inr (h s')"
  using assms
proof (induction "is" arbitrary: s)
  case Nil
  then show ?case by simp
next
  case (Cons i "is")
  from Cons.prems(2) obtain t where t: "g i s = Inr t" "foldE g is t = Inr s'"
    by (auto split: sum.splits)
  have "f i (h s) = Inr (h t)" using Cons.prems(1) t(1) by simp
  moreover have "foldE f is (h t) = Inr (h s')"
    using Cons.IH [OF _ t(2)] Cons.prems(1) by simp
  ultimately show ?case by simp
qed

lemma vec_at_lift:
  "vec_at w k = Inr x \<Longrightarrow> vec_at (xs @ w @ ys) (length xs + k) = Inr x"
  by (auto simp: vec_at_def nth_append split: if_splits)

lemma vec_put_lift:
  "vec_put w k v = Inr w' \<Longrightarrow> vec_put (xs @ w @ ys) (length xs + k) v = Inr (xs @ w' @ ys)"
  by (auto simp: vec_put_def list_update_append split: if_splits)

lemma cell_update_lift:
  assumes "bindE (vec_at w k) (\<lambda>old. vec_put w k (F old)) = Inr w'"
  shows "bindE (vec_at (xs @ w @ ys) (length xs + k))
           (\<lambda>old. vec_put (xs @ w @ ys) (length xs + k) (F old)) = Inr (xs @ w' @ ys)"
proof -
  from assms obtain old where "vec_at w k = Inr old" "vec_put w k (F old) = Inr w'"
    by (auto simp: bindE_eq_Inr)
  then show ?thesis by (simp add: vec_at_lift vec_put_lift)
qed

lemma add_tree_contribs_lift:
  assumes "add_tree_contribs tw j tc C p w = Inr w'"
  shows "add_tree_contribs tw j tc C (length xs + p) (xs @ w @ ys) = Inr (xs @ w' @ ys)"
  using assms unfolding add_tree_contribs_def
proof (rule foldE_lift [where h = "\<lambda>w. xs @ w @ ys", rotated], goal_cases)
  case (1 ci s s')
  let ?W = "case tw of None \<Rightarrow> Inr 1 | Some w \<Rightarrow> vec_at w j"
  from 1(2) obtain weight where w: "?W = Inr weight"
    and c: "bindE (vec_at s (p + ci)) (\<lambda>old. vec_put s (p + ci) (old + tc ! ci * weight)) = Inr s'"
    by (auto simp: bindE_eq_Inr)
  from cell_update_lift [OF c, of xs ys] show ?case
    by (simp add: w add.assoc)
qed

lemma contribs_of_trees_lift:
  assumes "contribs_of_trees model L tw approx gi nfg cond cf C gid feats p w = Inr w'"
  shows "contribs_of_trees model L tw approx gi nfg cond cf C gid feats (length xs + p)
           (xs @ w @ ys) = Inr (xs @ w' @ ys)"
  using assms unfolding contribs_of_trees_def
proof (rule foldE_lift [where h = "\<lambda>w. xs @ w @ ys", rotated], goal_cases)
  case (1 j s s')
  from 1(2) obtain g where g: "vec_at (tree_info model) j = Inr g"
    and r: "(if g \<noteq> int gid then Inr s
             else bindE (vec_at (trees model) j) (\<lambda>tree.
                    add_tree_contribs tw j
                      (tree_contribs tree approx feats gi nfg cond cf C) C p s)) = Inr s'"
    by (auto simp: bindE_eq_Inr)
  show ?case
  proof (cases "g \<noteq> int gid")
    case True
    then show ?thesis using g r by simp
  next
    case False
    with r obtain tree where t: "vec_at (trees model) j = Inr tree"
      and a: "add_tree_contribs tw j (tree_contribs tree approx feats gi nfg cond cf C) C p s
                = Inr s'"
      by (auto simp: bindE_eq_Inr)
    from add_tree_contribs_lift [OF a, of xs ys] show ?thesis
      using False g t by simp
  qed
qed

lemma add_bias_lift:
  assumes "add_bias model [] bias cell w = Inr w'"
  shows "add_bias model [] (length xs + bias) cell' (xs @ w @ ys) = Inr (xs @ w' @ ys)"
proof -
  from assms have "bindE (vec_at w bias) (\<lambda>old. vec_put w bias (old + base_score model)) = Inr w'"
    by (simp add: add_bias_def)
  from cell_update_lift [OF this, of xs ys] show ?thesis
    by (simp add: add_bias_def)
qed

lemma contribs_of_group_lift:
  assumes small: "contribs_of_group model L tw approx gi nfg cond cf [] C G inst 0 gid (w, f)
                    = Inr (w', f')"
    and xs: "length xs = r * G * C" and C: "0 < C"
  shows "contribs_of_group model L tw approx gi nfg cond cf [] C G inst r gid (xs @ w @ ys, f)
           = Inr (xs @ w' @ ys, f')"
proof -
  let ?feats = "Fill f inst"
  from small obtain c1 where
    t: "contribs_of_trees model L tw approx gi nfg cond cf C gid ?feats (gid * C) w = Inr c1"
    and b: "add_bias model [] (gid * C + C - 1) gid c1 = Inr w'"
    and f': "f' = Drop ?feats inst"
    by (auto simp: contribs_of_group_def Let_def bindE_eq_Inr)
  have p: "(r * G + gid) * C = length xs + gid * C"
    by (simp add: xs add_mult_distrib)
  have q: "length xs + gid * C + C - 1 = length xs + (gid * C + C - 1)"
    using C by simp
  show ?thesis
    unfolding contribs_of_group_def Let_def prod.case p q
    using contribs_of_trees_lift [OF t, of xs ys] add_bias_lift [OF b, of xs "r * G + gid" ys] f'
    by simp
qed

lemma contribs_of_row_lift:
  assumes small: "contribs_of_row thr model L tw approx gi nfg cond cf [] C G
                    \<lparr> base_rowid = 0, page_rows = [inst] \<rparr> 0 (w, fv) = Inr (w', fv')"
    and i: "i < length (page_rows batch)" "page_rows batch ! i = inst" and t: "thr' i = thr 0"
    and xs: "length xs = (base_rowid batch + i) * G * C" and C: "0 < C"
  shows "contribs_of_row thr' model L tw approx gi nfg cond cf [] C G batch i (xs @ w @ ys, fv)
           = Inr (xs @ w' @ ys, fv')"
proof -
  let ?grp = "\<lambda>r. contribs_of_group model L tw approx gi nfg cond cf [] C G inst r"
  from small obtain feats0 f' where
    tf: "thread_feats fv (thr 0) (int32_t (num_feature model)) = Inr feats0"
    and g: "foldE (?grp 0) [0..<G] (w, feats0) = Inr (w', f')"
    and p: "vec_put fv (thr 0) f' = Inr fv'"
    by (auto simp: contribs_of_row_def Let_def bindE_eq_Inr vec_at_def)
  have "foldE (?grp (base_rowid batch + i)) [0..<G] ((\<lambda>(w, f). (xs @ w @ ys, f)) (w, feats0))
          = Inr ((\<lambda>(w, f). (xs @ w @ ys, f)) (w', f'))"
  proof (rule foldE_lift [OF _ g], goal_cases)
    case (1 gid s s')
    obtain a b where s: "s = (a, b)" by (cases s)
    obtain a' b' where s': "s' = (a', b')" by (cases s')
    from contribs_of_group_lift [OF 1(2) [unfolded s s'] xs C, of ys] show ?case
      by (simp add: s s')
  qed
  then show ?thesis
    unfolding contribs_of_row_def Let_def prod.case t
    using tf p i by (simp add: vec_at_def)
qed

lemma length_concat_replicate: "length (concat (replicate k v)) = k * length v"
  by (induction k) simp_all

lemma concat_replicate_snoc: "concat (replicate k v) @ v = concat (replicate (Suc k) v)"
  by (induction k) simp_all

lemma concat_replicate_nth:
  "0 < length v \<Longrightarrow> idx < k * length v \<Longrightarrow> concat (replicate k v) ! idx = v ! (idx mod length v)"
proof (induction k arbitrary: idx)
  case 0
  then show ?case by simp
next
  case (Suc k)
  show ?case
  proof (cases "idx < length v")
    case True
    then show ?thesis by (simp add: nth_append)
  next
    case False
    then have "idx - length v < k * length v" using Suc.prems(2) by simp
    from Suc.IH [OF Suc.prems(1) this] False show ?thesis
      by (simp add: nth_append le_mod_geq)
  qed
qed

lemma equal_rows_loop:
  assumes S0: "contribs_of_row (\<lambda>_. 0) model L tw approx gi nfg cond cf [] C G
                 \<lparr> base_rowid = 0, page_rows = [inst] \<rparr> 0 (replicate (G * C) 0, fva) = Inr (v, fvb)"
    and S1: "contribs_of_row (\<lambda>_. 0) model L tw approx gi nfg cond cf [] C G
                 \<lparr> base_rowid = 0, page_rows = [inst] \<rparr> 0 (replicate (G * C) 0, fvb) = Inr (v, fvb)"
    and lv: "length v = G * C" and C: "0 < C" and k: "k \<le> n"
  shows "foldE (contribs_of_row (\<lambda>_. 0) model L tw approx gi nfg cond cf [] C G
                  \<lparr> base_rowid = 0, page_rows = replicate n inst \<rparr>)
           [0..<k] (replicate (n * (G * C)) 0, fva)
         = Inr (concat (replicate k v) @ replicate ((n - k) * (G * C)) 0,
                if k = 0 then fva else fvb)"
  using k
proof (induction k)
  case 0
  show ?case by simp
next
  case (Suc k)
  let ?b = "\<lparr> base_rowid = 0, page_rows = replicate n inst \<rparr>"
  let ?xs = "concat (replicate k v)" and ?w = "replicate (G * C) (0 :: real)"
  let ?ys = "replicate ((n - Suc k) * (G * C)) (0 :: real)"
  let ?fv = "if k = 0 then fva else fvb"
  from Suc have kn: "k < n" by simp
  have prev: "foldE (contribs_of_row (\<lambda>_. 0) model L tw approx gi nfg cond cf [] C G ?b)
                [0..<k] (replicate (n * (G * C)) 0, fva)
              = Inr (?xs @ replicate ((n - k) * (G * C)) 0, ?fv)"
    using Suc by simp
  have "(n - k) * (G * C) = G * C + (n - Suc k) * (G * C)"
  proof -
    have "n - k = Suc (n - Suc k)" using kn by simp
    then show ?thesis by simp
  qed
  then have split: "replicate ((n - k) * (G * C)) (0 :: real) = ?w @ ?ys"
    by (simp only: replicate_add)
  have small: "contribs_of_row (\<lambda>_. 0) model L tw approx gi nfg cond cf [] C G
                 \<lparr> base_rowid = 0, page_rows = [inst] \<rparr> 0 (?w, ?fv) = Inr (v, fvb)"
    using S0 S1 by simp
  have len: "length ?xs = (base_rowid ?b + k) * G * C"
    by (simp add: length_concat_replicate lv mult.assoc)
  have i: "k < length (page_rows ?b)" "page_rows ?b ! k = inst" using kn by simp_all
  have step: "contribs_of_row (\<lambda>_. 0) model L tw approx gi nfg cond cf [] C G ?b k
                (?xs @ ?w @ ?ys, ?fv) = Inr (?xs @ v @ ?ys, fvb)"
    by (rule contribs_of_row_lift [OF small i refl len C])
  have "?xs @ v @ ?ys = concat (replicate (Suc k) v) @ ?ys"
    using concat_replicate_snoc [of k v] by simp
  then show ?case
    using prev step by (simp add: foldE_append split)
qed

lemma fresh_thread_temp: "InitThreadTemp nthread nf [] = replicate nthread []"
  by (simp add: InitThreadTemp_def resize_def)

lemma PredictContribution_equal_rows:
  assumes n: "n < 2 ^ 32" and G: "0 < num_output_group model" "num_output_group model < 2 ^ 31"
    and cols: "contrib_columns model gi nfg = C" and C: "0 < C"
    and sz: "n * C * num_output_group model < 2 ^ 64"
    and S0: "contribs_of_row (\<lambda>_. 0) model (unat (valid_tree_limit model ntl)) tw approx gi nfg
                 cond cf [] C (num_output_group model)
                 \<lparr> base_rowid = 0, page_rows = [inst] \<rparr> 0
                 (replicate (num_output_group model * C) 0, replicate nthread []) = Inr (v, fvb)"
    and S1: "contribs_of_row (\<lambda>_. 0) model (unat (valid_tree_limit model ntl)) tw approx gi nfg
                 cond cf [] C (num_output_group model)
                 \<lparr> base_rowid = 0, page_rows = [inst] \<rparr> 0
                 (replicate (num_output_group model * C) 0, fvb) = Inr (v, fvb)"
    and lv: "length v = num_output_group model * C"
  shows "PredictContribution nthread (\<lambda>_. 0) (equal_rows n inst) scratch model ntl tw approx gi nfg
           cond cf = Inr (concat (replicate n v))"
proof -
  let ?G = "num_output_group model"
  have g: "int32_t ?G = int ?G" by (rule int32_t_id [OF G(2)])
  have z: "map (\<lambda>_. 0 :: real) (resize scratch (n * C * ?G mod 18446744073709551616) 0)
             = replicate (n * (?G * C)) 0"
    using sz by (simp add: zeroed_resize mult.assoc mult.commute [of C])
  have m: "bst_omp_uint n = n" using n by (simp add: bst_omp_uint_def)
  note loop = equal_rows_loop [OF S0 S1 lv C le_refl, of n]
  show ?thesis
    unfolding PredictContribution_def Let_def cols g equal_rows_def
    using G(1) C by (simp add: z m fresh_thread_temp loop)
qed

subsection \<open>The composition when the offsets wrap\<close>

lemma compose_cell_frame:
  assumes "ofs + i < length s" "ofs + k < length s"
    and "c + k < length diag" "c + k < length off" "c + k < length on"
  shows "\<exists>s'. compose_cell diag off on ofs c i k s = Inr s' \<and> length s' = length s
           \<and> (\<forall>idx. idx \<noteq> ofs + i \<longrightarrow> idx \<noteq> ofs + k \<longrightarrow> s' ! idx = s ! idx)"
  using assms by (auto simp: compose_cell_def vec_at_def vec_put_def)

lemma compose_interactions_frame:
  assumes lens: "length diag = L" "length off = L" "length on = L"
    and c: "unsigned32 (j * unsigned32 (G * (n + 1)) + l * (n + 1)) + n < L"
    and B: "2 ^ 32 + n \<le> length s" and i: "i \<le> n"
  shows "\<exists>s'. compose_interactions G n diag off on i j l s = Inr s' \<and> length s' = length s
           \<and> (\<forall>idx. 2 ^ 32 + n \<le> idx \<longrightarrow> s' ! idx = s ! idx)"
proof -
  let ?o = "unsigned32 (j * unsigned32 (G * (n + 1) * (n + 1)) + l * unsigned32 ((n + 1) * (n + 1))
              + i * (n + 1))"
  let ?c = "unsigned32 (j * unsigned32 (G * (n + 1)) + l * (n + 1))"
  let ?s0 = "s[?o + i := 0]"
  have o: "?o < 2 ^ 32" by (simp add: unsigned32_def)
  have oi: "?o + i < length s" using o i B by linarith
  have "\<exists>s'. foldE (compose_cell diag off on ?o ?c i) [0..<n + 1] ?s0 = Inr s'
          \<and> (length s' = length s \<and> (\<forall>idx. 2 ^ 32 + n \<le> idx \<longrightarrow> s' ! idx = s ! idx))"
  proof (rule foldE_total, goal_cases)
    case 1
    show ?case using o i by simp
  next
    case (2 k t)
    from 2(1) have k: "k \<le> n" by auto
    have a: "?o + i < length t" "?o + k < length t" using 2(2) o i k B by linarith+
    have b: "?c + k < length diag" "?c + k < length off" "?c + k < length on"
      using c k lens by linarith+
    from compose_cell_frame [OF a b] obtain t' where
      t': "compose_cell diag off on ?o ?c i k t = Inr t'" "length t' = length t"
      "\<forall>idx. idx \<noteq> ?o + i \<longrightarrow> idx \<noteq> ?o + k \<longrightarrow> t' ! idx = t ! idx"
      by blast
    have "t' ! idx = s ! idx" if "2 ^ 32 + n \<le> idx" for idx
    proof -
      have "idx \<noteq> ?o + i" "idx \<noteq> ?o + k" using that o i k by linarith+
      then have "t' ! idx = t ! idx" using t'(3) by blast
      then show ?thesis using 2(2) that by simp
    qed
    then show ?case using t'(1,2) 2(2) by simp
  qed
  then show ?thesis
    unfolding compose_interactions_def Let_def using oi by (simp add: vec_put_def)
qed

lemma compose_feature_frame:
  assumes lens: "length diag = L" "length off = L" "length on = L"
    and c: "\<forall>j < R. \<forall>l < G. unsigned32 (j * unsigned32 (G * (n + 1)) + l * (n + 1)) + n < L"
    and B: "2 ^ 32 + n \<le> length s" and i: "i \<le> n"
  shows "\<exists>s'. compose_feature R G n diag off on i s = Inr s' \<and> length s' = length s
           \<and> (\<forall>idx. 2 ^ 32 + n \<le> idx \<longrightarrow> s' ! idx = s ! idx)"
proof -
  let ?P = "\<lambda>t. length t = length s \<and> (\<forall>idx. 2 ^ 32 + n \<le> idx \<longrightarrow> t ! idx = s ! idx)"
  have "\<exists>s'. foldE (\<lambda>j. foldE (compose_interactions G n diag off on i j) [0..<G]) [0..<R] s
               = Inr s' \<and> ?P s'"
  proof (rule foldE_total, goal_cases)
    case 1
    show ?case by simp
  next
    case (2 j t)
    then have j: "j < R" by simp
    show ?case
    proof (rule foldE_total, goal_cases)
      case 1
      show ?case by (rule 2(2))
    next
      case (2 l u)
      then have l: "l < G" by simp
      have cc: "unsigned32 (j * unsigned32 (G * (n + 1)) + l * (n + 1)) + n < L"
        using c j l by blast
      have Bu: "2 ^ 32 + n \<le> length u" using 2(2) B by simp
      from compose_interactions_frame [OF lens cc Bu i] obtain u' where
        "compose_interactions G n diag off on i j l u = Inr u'" "length u' = length u"
        "\<forall>idx. 2 ^ 32 + n \<le> idx \<longrightarrow> u' ! idx = u ! idx"
        by blast
      then show ?case using 2(2) by simp
    qed
  qed
  then show ?thesis by (simp add: compose_feature_def)
qed

subsection \<open>The interaction pass on \<open>2 ^ 30 + 1\<close> rows\<close>

lemma shap_single_row:
  assumes "fv = [[]] \<or> fv = [[None]]"
  shows "contribs_of_row (\<lambda>_. 0) shap_model (unat (valid_tree_limit shap_model 0)) None False None
           0 cond cf [] 2 (num_output_group shap_model)
           \<lparr> base_rowid = 0, page_rows = [[(0, 5)]] \<rparr> 0
           (replicate (num_output_group shap_model * 2) 0, fv)
         = Inr (shap_pass cond cf, [[None]])"
proof -
  have lim: "unat (valid_tree_limit shap_model 0) = 1"
    by (simp add: valid_tree_limit_def shap_model_fields)
  have r2: "replicate 2 (0 :: real) = [0, 0]" by (simp add: eval_nat_numeral)
  have tc: "tree_contribs shap_tree False feats None 0 cond cf 2
              = [real_of_int cond * real cf + 1, real_of_int cond * real (cf + 2) + 2]"
    for feats
    by (simp add: tree_contribs_def shap_tree_def upt_0_2)
  from assms show ?thesis
    unfolding lim shap_model_fields
    by (auto simp: r2 contribs_of_row_def contribs_of_group_def contribs_of_trees_def
        add_tree_contribs_def add_bias_def thread_feats_def shap_model_fields tc upt_0_2
        vec_at_def vec_put_def Size_def Init_def shap_pass_def Let_def int32_t_def size_t_def)
qed

lemma wrap_pass:
  "PredictContribution 1 (\<lambda>_. 0) wrap_rows scratch shap_model 0 None False None 0 cond cf
     = Inr (concat (replicate 1073741825 (shap_pass cond cf)))"
  unfolding wrap_rows_def
proof (rule PredictContribution_equal_rows [where C = 2 and fvb = "[[None]]"], goal_cases)
  case 7
  show ?case by (rule shap_single_row) simp
next
  case 8
  show ?case by (rule shap_single_row) simp
qed (simp_all add: shap_model_fields shap_columns shap_pass_def)
lemma wrap_rows_fields: "num_row (Info wrap_rows) = 1073741825"
  by (simp add: wrap_rows_def equal_rows_def)

lemma wrap_pass_length:
  "length (concat (replicate 1073741825 (shap_pass cond cf))) = 2147483650"
  by (simp add: length_concat_replicate shap_pass_def)

lemma wrap_offsets:
  "\<forall>j < 1073741825. \<forall>l < Suc 0.
      unsigned32 (j * unsigned32 (Suc 0 * (1 + 1)) + l * (1 + 1)) + 1 < (2147483650 :: nat)"
  by (auto simp: unsigned32_def)

lemma wrap_interaction:
  "\<exists>out. PredictInteractionContributions 1 (\<lambda>_. 0) wrap_rows [] shap_model 0 None False None 0
            = Inr out
         \<and> length out = 4294967300
         \<and> (\<forall>idx. 4294967297 \<le> idx \<longrightarrow> idx < 4294967300 \<longrightarrow> out ! idx = 0)"
proof -
  let ?p = "\<lambda>c i. concat (replicate 1073741825 (shap_pass c i))"
  let ?s0 = "replicate 4294967300 (0 :: real)"
  have B: "2 ^ 32 + 1 \<le> length ?s0" by simp
  from compose_feature_frame [where R = 1073741825 and G = "Suc 0" and n = 1 and i = 0
      and diag = "?p 0 0" and off = "?p (- 1) 0" and on = "?p 1 0" and s = ?s0
      and L = 2147483650, OF wrap_pass_length wrap_pass_length wrap_pass_length wrap_offsets B]
  obtain s1 where s1: "compose_feature 1073741825 (Suc 0) 1 (?p 0 0) (?p (- 1) 0) (?p 1 0) 0 ?s0
                         = Inr s1"
    and l1: "length s1 = length ?s0"
    and f1: "\<forall>idx. 2 ^ 32 + 1 \<le> idx \<longrightarrow> s1 ! idx = ?s0 ! idx"
    by auto
  have B1: "2 ^ 32 + 1 \<le> length s1" using l1 by simp
  from compose_feature_frame [where R = 1073741825 and G = "Suc 0" and n = 1 and i = 1
      and diag = "?p 0 0" and off = "?p (- 1) (Suc 0)" and on = "?p 1 (Suc 0)" and s = s1
      and L = 2147483650, OF wrap_pass_length wrap_pass_length wrap_pass_length wrap_offsets B1]
  obtain s2 where s2: "compose_feature 1073741825 (Suc 0) 1 (?p 0 0) (?p (- 1) (Suc 0))
                         (?p 1 (Suc 0)) 1 s1 = Inr s2"
    and l2: "length s2 = length s1"
    and f2: "\<forall>idx. 2 ^ 32 + 1 \<le> idx \<longrightarrow> s2 ! idx = s1 ! idx"
    by auto
  have r: "PredictInteractionContributions 1 (\<lambda>_. 0) wrap_rows [] shap_model 0 None False None 0
             = Inr s2"
    unfolding PredictInteractionContributions_def Let_def shap_columns shap_model_fields
      wrap_rows_fields wrap_pass
    using s1 s2
    by (simp add: int32_t_def size_t_def resize_def upt_0_2 unsigned32_def)
  have "s2 ! idx = 0" if "4294967297 \<le> idx" "idx < 4294967300" for idx
  proof -
    have "s2 ! idx = ?s0 ! idx" using f1 f2 that(1) by simp
    then show ?thesis using that(2) by simp
  qed
  then show ?thesis using r l1 l2 by simp
qed

subsection \<open>C10: the tree limit of single-row predict\<close>









subsection \<open>C7: the tree limit of leaf-index predict\<close>

lemma leaf_ids_of_row_length:
  "leaf_ids_of_row model L ridx feats preds = Inr preds' \<Longrightarrow> length preds' = length preds"
  unfolding leaf_ids_of_row_def
  by (erule foldE_inv [where P = "\<lambda>p. length p = length preds"])
     (auto simp: bindE_eq_Inr dest: vec_put_length)

lemma PredictLeaf_row_length:
  "PredictLeaf_row thr model L batch i (preds, fv) = Inr (preds', fv') \<Longrightarrow>
     length preds' = length preds"
  by (auto simp: PredictLeaf_row_def Let_def bindE_eq_Inr dest: leaf_ids_of_row_length)

lemma PredictLeaf_batch_length:
  assumes "foldE (PredictLeaf_row thr model L batch) is s = Inr s'"
  shows "length (fst s') = length (fst s)"
  by (rule foldE_inv [OF assms, where P = "\<lambda>t. length (fst t) = length (fst s)"])
     (auto dest: PredictLeaf_row_length)

lemma PredictLeaf_length:
  assumes "PredictLeaf nthread thr p_fmat out_preds model n = Inr preds"
  shows "length preds = num_row (Info p_fmat) * unat (valid_tree_limit model n)"
proof -
  let ?L = "unat (valid_tree_limit model n)"
  let ?N = "num_row (Info p_fmat) * ?L"
  from assms obtain s where
    s: "foldE (\<lambda>batch. foldE (PredictLeaf_row thr model ?L batch)
                 [0..<bst_omp_uint (length (page_rows batch))])
          (GetBatches p_fmat)
          (resize out_preds ?N 0, InitThreadTemp nthread (num_feature model) []) = Inr s"
    and p: "preds = fst s"
    by (auto simp: PredictLeaf_def Let_def bindE_eq_Inr)
  have "length (fst s) = ?N"
    by (rule foldE_inv [OF s, where P = "\<lambda>t. length (fst t) = ?N"])
       (auto simp: resize_def dest: PredictLeaf_batch_length)
  then show ?thesis using p by simp
qed

text \<open>
  C7. Leaf-index predict with tree limit 0 gives exactly the output of the call with
  the limit equal to the number of trees, and so does every limit above the number
  of trees; the output of a call that returns has \<open>numRows * effectiveLimit\<close> cells;
  a limit between 1 and the number of trees is used as it is, whatever the number of
  output groups, so it counts trees, not trees per group.
\<close>

theorem PredictLeaf_tree_limit:
  "PredictLeaf nthread thr p_fmat out_preds model 0 =
     PredictLeaf nthread thr p_fmat out_preds model (of_nat (length (trees model)))
   \<and> (length (trees model) < unat n \<longrightarrow>
        PredictLeaf nthread thr p_fmat out_preds model n =
          PredictLeaf nthread thr p_fmat out_preds model (of_nat (length (trees model))))
   \<and> (PredictLeaf nthread thr p_fmat out_preds model n = Inr preds \<longrightarrow>
        length preds = num_row (Info p_fmat) * unat (valid_tree_limit model n))
   \<and> (0 < unat n \<and> unat n \<le> length (trees model) \<longrightarrow>
        valid_tree_limit (model\<lparr>num_output_group := g\<rparr>) n = n)"
proof (intro conjI impI)
  show "PredictLeaf nthread thr p_fmat out_preds model 0 =
     PredictLeaf nthread thr p_fmat out_preds model (of_nat (length (trees model)))"
    by (simp add: PredictLeaf_def valid_tree_limit_def)
next
  assume "length (trees model) < unat n"
  then show "PredictLeaf nthread thr p_fmat out_preds model n =
          PredictLeaf nthread thr p_fmat out_preds model (of_nat (length (trees model)))"
    by (simp add: PredictLeaf_def valid_tree_limit_def)
next
  assume "PredictLeaf nthread thr p_fmat out_preds model n = Inr preds"
  then show "length preds = num_row (Info p_fmat) * unat (valid_tree_limit model n)"
    by (rule PredictLeaf_length)
next
  assume "0 < unat n \<and> unat n \<le> length (trees model)"
  then show "valid_tree_limit (model\<lparr>num_output_group := g\<rparr>) n = n"
    by (auto simp: valid_tree_limit_def unat_eq_0)
qed

lemma PredictLeaf_two_rows:
  "PredictLeaf 1 (\<lambda>_. 0) two_rows [] stump_model 7 = Inr [2, 0, 1, 0]"
  apply (simp add: PredictLeaf_def PredictLeaf_row_def leaf_ids_of_row_def valid_tree_limit_def
      stump_model_def two_rows_def stump_def const_tree_def InitThreadTemp_def resize_def
      bst_omp_uint_def thread_feats_def vec_at_def vec_put_def Init_def Size_def upt_0_2 Let_def
      int32_t_def size_t_def)
  apply (simp add: eval_nat_numeral)
  done

text \<open>
  The theorem at the model of two trees and the matrix of two rows: the limits 7, 0
  and 2 give the same four cells, and the limit 1 stays 1 with three groups.
\<close>

theorem PredictLeaf_tree_limit_witness:
  "PredictLeaf 1 (\<lambda>_. 0) two_rows [] stump_model 0 = Inr [2, 0, 1, 0]
   \<and> PredictLeaf 1 (\<lambda>_. 0) two_rows [] stump_model 2 = Inr [2, 0, 1, 0]
   \<and> length [2, 0, 1, 0 :: real] = num_row (Info two_rows) * unat (valid_tree_limit stump_model 7)
   \<and> valid_tree_limit (stump_model\<lparr>num_output_group := 3\<rparr>) 1 = 1"
proof -
  have h1: "length (trees stump_model) < unat (7 :: 32 word)"
    by (simp add: stump_model_def)
  have h2: "0 < unat (1 :: 32 word) \<and> unat (1 :: 32 word) \<le> length (trees stump_model)"
    by (simp add: stump_model_def)
  have two: "(of_nat (length (trees stump_model)) :: 32 word) = 2"
    by (simp add: stump_model_def)
  note t7 = PredictLeaf_tree_limit [where nthread = 1 and thr = "\<lambda>_. 0" and p_fmat = two_rows
      and out_preds = "[]" and model = stump_model and n = 7 and preds = "[2, 0, 1, 0]" and g = 3]
  note t1 = PredictLeaf_tree_limit [where nthread = 1 and thr = "\<lambda>_. 0" and p_fmat = two_rows
      and out_preds = "[]" and model = stump_model and n = 1 and preds = "[]" and g = 3]
  from t7 h1 PredictLeaf_two_rows two
  have a: "PredictLeaf 1 (\<lambda>_. 0) two_rows [] stump_model 0 = Inr [2, 0, 1, 0]"
    and b: "PredictLeaf 1 (\<lambda>_. 0) two_rows [] stump_model 2 = Inr [2, 0, 1, 0]"
    and c: "length [2, 0, 1, 0 :: real] = num_row (Info two_rows) * unat (valid_tree_limit stump_model 7)"
    by simp_all
  from t1 h2 have d: "valid_tree_limit (stump_model\<lparr>num_output_group := 3\<rparr>) 1 = 1"
    by blast
  from a b c d show ?thesis by blast
qed

subsection \<open>C5: the base margin in the initialisation of the output\<close>

text \<open>
  C5. With at least one output group, a base margin of length
  \<open>numRows * numOutputGroups\<close> is copied verbatim into the output; for any other length
  the call returns the buffer of that size filled with the base score, and when the
  margin is not empty it logs exactly one warning, which names the expected length.
\<close>

theorem InitOutPredictions_base_margin:
  assumes "num_output_group model \<noteq> 0"
  shows "(length (base_margin info) = num_output_group model * num_row info \<longrightarrow>
            InitOutPredictions info out_preds model = Inr (base_margin info, []))
       \<and> (length (base_margin info) \<noteq> num_output_group model * num_row info \<longrightarrow>
            (\<exists>warnings.
               InitOutPredictions info out_preds model =
                 Inr (replicate (num_output_group model * num_row info) (base_score model), warnings)
               \<and> (base_margin info = [] \<longrightarrow> warnings = [])
               \<and> (base_margin info \<noteq> [] \<longrightarrow>
                    (\<exists>w. warnings = [w]
                       \<and> Num (num_output_group model * num_row info) \<in> set w))))"
proof (intro conjI impI)
  assume "length (base_margin info) = num_output_group model * num_row info"
  then show "InitOutPredictions info out_preds model = Inr (base_margin info, [])"
    using assms by (simp add: InitOutPredictions_def Let_def resize_def)
next
  assume ne: "length (base_margin info) \<noteq> num_output_group model * num_row info"
  have fill: "map (\<lambda>_. base_score model)
                (resize out_preds (num_output_group model * num_row info) 0)
              = replicate (num_output_group model * num_row info) (base_score model)"
    by (simp add: resize_def map_replicate_const)
  have one: "num_output_group model * num_row info = num_row info"
    if "\<not> 1 < num_output_group model"
    using that assms by (cases "num_output_group model") auto
  show "\<exists>warnings.
          InitOutPredictions info out_preds model =
            Inr (replicate (num_output_group model * num_row info) (base_score model), warnings)
          \<and> (base_margin info = [] \<longrightarrow> warnings = [])
          \<and> (base_margin info \<noteq> [] \<longrightarrow>
               (\<exists>w. warnings = [w] \<and> Num (num_output_group model * num_row info) \<in> set w))"
    using assms ne fill one by (simp add: InitOutPredictions_def Let_def)
qed

text \<open>
  The theorem at three rows, one group and a margin of two entries: the margin is
  ignored, the three cells hold the base score and one warning is logged.
\<close>

theorem InitOutPredictions_base_margin_witness:
  "num_output_group stump_model \<noteq> 0
   \<and> length (base_margin short_margin) \<noteq> num_output_group stump_model * num_row short_margin
   \<and> (\<exists>w. InitOutPredictions short_margin [] stump_model = Inr ([0.5, 0.5, 0.5], [w])
          \<and> Num 3 \<in> set w)"
proof -
  have g: "num_output_group stump_model \<noteq> 0"
    by (simp add: stump_model_def)
  have ne: "length (base_margin short_margin)
              \<noteq> num_output_group stump_model * num_row short_margin"
    by (simp add: stump_model_def short_margin_def)
  have v: "num_output_group stump_model * num_row short_margin = 3"
    "base_score stump_model = 0.5" "base_margin short_margin \<noteq> []"
    by (simp_all add: stump_model_def short_margin_def)
  have r: "replicate 3 (0.5 :: real) = [0.5, 0.5, 0.5]"
    by (simp add: eval_nat_numeral)
  from InitOutPredictions_base_margin [OF g, of short_margin "[]"] ne
  have "\<exists>warnings. InitOutPredictions short_margin [] stump_model =
            Inr (replicate (num_output_group stump_model * num_row short_margin)
                   (base_score stump_model), warnings)
          \<and> (base_margin short_margin \<noteq> [] \<longrightarrow>
               (\<exists>w. warnings = [w]
                  \<and> Num (num_output_group stump_model * num_row short_margin) \<in> set w))"
    by blast
  then have "\<exists>w. InitOutPredictions short_margin [] stump_model = Inr ([0.5, 0.5, 0.5], [w])
          \<and> Num 3 \<in> set w"
    unfolding v r using v(3) by auto
  with g ne show ?thesis by blast
qed

subsection \<open>C9: the feature count of an in-place input\<close>

text \<open>
  C9. When the column count of the adapter differs from the feature count of the
  model, the dispatched in-place prediction fails with the fatal check on the number of
  columns, and so does in-place predict for each of the four adapter kinds: the
  result is the error alone, no predictions are produced.
\<close>

theorem DispatchedInplacePredict_feature_mismatch:
  assumes "NumColumns m \<noteq> num_feature model"
  shows "DispatchedInplacePredict threads thr m p_m model missing out_preds tb te =
           Inl (CheckFailed ''Number of columns in data must equal to trained model.'')
       \<and> (\<forall>x \<in> {DenseAdapter m, CSRAdapter m, ArrayAdapter m, CSRArrayAdapter m}.
            InplacePredict threads thr x p_m model missing out_preds tree_begin tree_end =
              Inl (CheckFailed ''Number of columns in data must equal to trained model.''))"
  using assms by (simp add: DispatchedInplacePredict_def InplacePredict_def)

text \<open>The theorem at an adapter of two columns and the model of one feature.\<close>

theorem DispatchedInplacePredict_feature_mismatch_witness:
  "NumColumns two_columns \<noteq> num_feature stump_model
   \<and> InplacePredict 1 (\<lambda>_. 0) (CSRAdapter two_columns) None stump_model None [] 0 2 =
       Inl (CheckFailed ''Number of columns in data must equal to trained model.'')"
proof -
  have h: "NumColumns two_columns \<noteq> num_feature stump_model"
    by (simp add: two_columns_def stump_model_def)
  from DispatchedInplacePredict_feature_mismatch [OF h, of 1 "\<lambda>_. 0" None None "[]" 0 2 0 2] h
  show ?thesis by simp
qed

subsection \<open>C4: the bias term of the contributions\<close>

lemma stump_model_contribs:
  "tree_contribs (trees stump_model ! j) approximate feats gi nfg c cf 2 = [0, 0]"
  if "j < 2"
proof -
  from that have "j = 0 \<or> j = 1" by auto
  then show ?thesis
    by (auto simp: tree_contribs_def stump_model_def stump_def const_tree_def upt_0_2)
qed

text \<open>
  C4 at a base margin that is present but has the wrong length. With one row, one
  group and a margin of two entries, the bias slot receives the margin entry 7, not
  the base score 0.5; with two rows and a margin of one entry, the second row reads
  past the end of the margin. \<open>InitOutPredictions\<close> falls back to the base score on
  both inputs.
\<close>

theorem PredictContribution_wrong_margin:
  "PredictContribution 1 (\<lambda>_. 0) long_margin [] stump_model 0 None False None 0 0 0
     = Inr [0, 7]
   \<and> length (base_margin (Info long_margin))
        \<noteq> num_row (Info long_margin) * num_output_group stump_model
   \<and> PredictContribution 1 (\<lambda>_. 0) missing_margin [] stump_model 0 None False None 0 0 0
     = Inl OutOfRange"
proof (intro conjI)
  have lim: "unat (valid_tree_limit stump_model 0) = 2"
    by (simp add: valid_tree_limit_def stump_model_def)
  have cols: "contrib_columns stump_model None 0 = 2"
    by (simp add: contrib_columns_def stump_model_def int32_t_def size_t_def)
  have f: "num_output_group stump_model = 1" "num_feature stump_model = 1"
    "base_score stump_model = 0.5" "tree_info stump_model = [0, 0]"
    "length (trees stump_model) = 2"
    by (simp_all add: stump_model_def)
  have r2: "replicate 2 (0 :: real) = [0, 0]" "replicate 4 (0 :: real) = [0, 0, 0, 0]"
    by (simp_all add: eval_nat_numeral)
  have trs: "contribs_of_trees stump_model 2 None False None 0 0 0 2 0 feats p contribs
               = Inr contribs"
    if "p + 1 < length contribs" for feats p contribs
    using that
    by (simp add: contribs_of_trees_def add_tree_contribs_def f upt_0_2 vec_at_def vec_put_def
        stump_model_contribs [of 0, simplified] stump_model_contribs [of "Suc 0", simplified])
  have grp: "contribs_of_group stump_model 2 None False None 0 0 0 margin 2 (Suc 0) inst row_idx 0
               (contribs, feats0)
             = bindE (add_bias stump_model margin (row_idx * 2 + 1) row_idx contribs)
                 (\<lambda>contribs'. Inr (contribs', Drop (Fill feats0 inst) inst))"
    if "row_idx * 2 + 1 < length contribs" for margin inst row_idx contribs feats0
    using that by (simp add: contribs_of_group_def Let_def trs)
  show "PredictContribution 1 (\<lambda>_. 0) long_margin [] stump_model 0 None False None 0 0 0
          = Inr [0, 7]"
    unfolding PredictContribution_def Let_def lim cols f
    by (simp add: long_margin_def contribs_of_row_def InitThreadTemp_def resize_def
        bst_omp_uint_def thread_feats_def f grp r2 add_bias_def vec_at_def vec_put_def Size_def
        Init_def int32_t_def size_t_def)
  show "length (base_margin (Info long_margin))
          \<noteq> num_row (Info long_margin) * num_output_group stump_model"
    by (simp add: long_margin_def f)
  show "PredictContribution 1 (\<lambda>_. 0) missing_margin [] stump_model 0 None False None 0 0 0
          = Inl OutOfRange"
    unfolding PredictContribution_def Let_def lim cols f
    by (simp add: missing_margin_def contribs_of_row_def InitThreadTemp_def resize_def
        bst_omp_uint_def thread_feats_def f grp r2 add_bias_def vec_at_def vec_put_def Size_def
        Init_def upt_0_2 int32_t_def size_t_def)
qed

subsection \<open>C1: the contract of the kernel\<close>

lemma many_rows_fields:
  "view_base_rowid many_rows = 0" "length (view_rows many_rows) = 130"
  "view_ready thr nb many_rows"
  "r < 130 \<Longrightarrow> view_rows many_rows ! r = (if r < 64 then [(0, 5)] else [])"
  by (simp_all add: many_rows_def nth_append)

lemma two_pools_eq: "two_pools = replicate 128 []"
  by (simp add: two_pools_def InitThreadTemp_def resize_def kBlockOfRowsSize_def)

lemma n_row_blocks_130: "n_row_blocks 130 = 3"
  by (simp add: n_row_blocks_def kBlockOfRowsSize_def)

lemma many_rows_ready:
  "kernel_ready (\<lambda>b. b mod 2) many_rows (replicate 130 0.5) stump_model 0 2 two_pools"
proof -
  have t: "0 \<le> [0, 0 :: int] ! t \<and> [0, 0 :: int] ! t < 1" if "t < 2" for t :: nat
  proof -
    from that have "t = 0 \<or> t = 1" by auto
    then show ?thesis by auto
  qed
  have w: "b mod 2 * 64 + 64 \<le> (128 :: nat)" for b :: nat
  proof -
    have "b mod 2 \<le> 1" by simp
    then have "b mod 2 * 64 \<le> 1 * 64" by (rule mult_le_mono1)
    then show ?thesis by simp
  qed
  show ?thesis
    unfolding kernel_ready_def many_rows_fields(1,2) stump_model_fields n_row_blocks_130
      two_pools_eq
    using t w by (simp add: pool_ok_def kBlockOfRowsSize_def many_rows_fields(3))
qed

lemma too_many_rows_fields:
  "view_Size too_many_rows = 2 ^ 32" "view_rows too_many_rows ! 0 = []"
  by (simp_all add: too_many_rows_def)

lemma many_groups_fields:
  "trees many_groups = [const_tree 1]" "tree_info many_groups = [1]"
  "num_output_group many_groups = 4294967295" "num_feature many_groups = 1"
  "size_leaf_vector many_groups = 0"
  by (simp_all add: many_groups_def)

lemma many_groups_conv:
  "size_t (int32_t 4294967295) = 18446744073709551615" "int32_t 1 = 1" "size_t 1 = 1"
  "size_t 0 = 0"
  by (simp_all add: size_t_def int32_t_def)

text \<open>
  C1 (amended). For a view of \<open>n\<close> rows with \<open>n < 2 ^ 32\<close>, and arguments that satisfy
  \<open>kernel_ready\<close> (among them a group count and a feature count below \<open>2 ^ 31\<close>): the
  number of blocks is the ceiling of \<open>n / 64\<close>; the blocks, taken in order, are
  contiguous and their concatenation is exactly the range of the rows, so they cover
  it without overlap and without gap; every block has between 1 and 64 rows and only
  the last one can have fewer than 64; the kernel returns, and in its output the cell
  of row \<open>r\<close> and group \<open>g\<close> is the cell of the input plus, once for each tree of
  \<open>[tree_begin, tree_end)\<close> assigned to \<open>g\<close>, the leaf value of that tree for the row;
  the cells of other rows are unchanged.
\<close>

theorem kernel_contract:
  assumes "kernel_ready thr batch out model tb te tt"
  shows "n_row_blocks (length (view_rows batch)) = (length (view_rows batch) + 63) div 64
     \<and> concat (map (\<lambda>b. [block_offset b..<block_offset b + block_size_of (length (view_rows batch)) b])
                [0..<n_row_blocks (length (view_rows batch))]) = [0..<length (view_rows batch)]
     \<and> (\<forall>b < n_row_blocks (length (view_rows batch)).
           0 < block_size_of (length (view_rows batch)) b
           \<and> block_size_of (length (view_rows batch)) b \<le> 64
           \<and> (Suc b < n_row_blocks (length (view_rows batch)) \<longrightarrow>
                block_size_of (length (view_rows batch)) b = 64))
     \<and> (\<exists>out' tt'.
           PredictBatchByBlockOfRowsKernel thr batch out model (int tb) (int te) tt = Inr (out', tt')
           \<and> length out' = length out
           \<and> (\<forall>r < length (view_rows batch). \<forall>g < num_output_group model.
                 out' ! ((view_base_rowid batch + r) * num_output_group model + g) =
                   out ! ((view_base_rowid batch + r) * num_output_group model + g)
                   + sum_list (map (\<lambda>t. PredValueByOneTree
                                           (Fill (Init (num_feature model)) (view_rows batch ! r))
                                           (trees model ! t))
                                 (filter (\<lambda>t. tree_info model ! t = int g) [tb..<te])))
           \<and> (\<forall>idx < length out.
                 \<not> (view_base_rowid batch \<le> idx div num_output_group model
                    \<and> idx div num_output_group model
                        < view_base_rowid batch + length (view_rows batch)) \<longrightarrow>
                 out' ! idx = out ! idx))"
proof (intro conjI)
  let ?n = "length (view_rows batch)" and ?G = "num_output_group model"
  let ?base = "view_base_rowid batch"
  show "n_row_blocks ?n = (?n + 63) div 64" by (rule n_row_blocks_ceil)
  show "concat (map (\<lambda>b. [block_offset b..<block_offset b + block_size_of ?n b])
                [0..<n_row_blocks ?n]) = [0..<?n]"
    using blocks_concat [OF le_refl, of ?n] by (simp only: blocks_cover)
  show "\<forall>b < n_row_blocks ?n. 0 < block_size_of ?n b \<and> block_size_of ?n b \<le> 64
           \<and> (Suc b < n_row_blocks ?n \<longrightarrow> block_size_of ?n b = 64)"
    by (rule blocks_shape)
  from kernel_spec [OF assms] obtain tt' where
    k: "PredictBatchByBlockOfRowsKernel thr batch out model (int tb) (int te) tt
          = Inr (kernel_out model batch tb te out, tt')"
    by blast
  from assms have cells: "(?base + ?n) * ?G \<le> length out"
    by (simp add: kernel_ready_def)
  have c1: "kernel_out model batch tb te out ! ((?base + r) * ?G + g) =
              out ! ((?base + r) * ?G + g)
              + sum_list (map (\<lambda>t. PredValueByOneTree
                                      (Fill (Init (num_feature model)) (view_rows batch ! r))
                                      (trees model ! t))
                            (filter (\<lambda>t. tree_info model ! t = int g) [tb..<te]))"
    if r: "r < ?n" and g: "g < ?G" for r g
  proof -
    have "(?base + r) * ?G + g < (?base + ?n) * ?G" by (rule cell_bound [OF r g])
    then have "(?base + r) * ?G + g < length out" using cells by simp
    from kernel_out_cell [OF g this refl r] show ?thesis
      by (simp add: row_sum_def block_sum_def)
  qed
  have c2: "kernel_out model batch tb te out ! idx = out ! idx"
    if "idx < length out" "\<not> (?base \<le> idx div ?G \<and> idx div ?G < ?base + ?n)" for idx
    using that(1) by (simp add: kernel_out_def Let_def if_not_P [OF that(2)])
  have len: "length (kernel_out model batch tb te out) = length out"
    by (simp add: kernel_out_def)
  show "\<exists>out' tt'. PredictBatchByBlockOfRowsKernel thr batch out model (int tb) (int te) tt = Inr (out', tt')
           \<and> length out' = length out
           \<and> (\<forall>r < ?n. \<forall>g < ?G.
                 out' ! ((?base + r) * ?G + g) = out ! ((?base + r) * ?G + g)
                   + sum_list (map (\<lambda>t. PredValueByOneTree
                                           (Fill (Init (num_feature model)) (view_rows batch ! r))
                                           (trees model ! t))
                                 (filter (\<lambda>t. tree_info model ! t = int g) [tb..<te])))
           \<and> (\<forall>idx < length out.
                 \<not> (?base \<le> idx div ?G \<and> idx div ?G < ?base + ?n) \<longrightarrow> out' ! idx = out ! idx)"
  proof (intro exI conjI allI impI)
    show "PredictBatchByBlockOfRowsKernel thr batch out model (int tb) (int te) tt
            = Inr (kernel_out model batch tb te out, tt')" by (rule k)
    show "length (kernel_out model batch tb te out) = length out" by (rule len)
  next
    fix r g assume "r < ?n" "g < ?G"
    then show "kernel_out model batch tb te out ! ((?base + r) * ?G + g) =
              out ! ((?base + r) * ?G + g)
              + sum_list (map (\<lambda>t. PredValueByOneTree
                                      (Fill (Init (num_feature model)) (view_rows batch ! r))
                                      (trees model ! t))
                            (filter (\<lambda>t. tree_info model ! t = int g) [tb..<te]))"
      by (rule c1)
  next
    fix idx assume "idx < length out" "\<not> (?base \<le> idx div ?G \<and> idx div ?G < ?base + ?n)"
    then show "kernel_out model batch tb te out ! idx = out ! idx" by (rule c2)
  qed
qed

text \<open>
  The theorem at the view of 130 rows with two workers that take the blocks in turn,
  the model of two trees in one group and a fresh pool: the rows form three blocks of
  64, 64 and 2 rows, the first 64 cells receive 20 + 1 and the other 66 receive 10 + 1.
\<close>

theorem kernel_contract_witness:
  "kernel_ready (\<lambda>b. b mod 2) many_rows (replicate 130 0.5) stump_model 0 2 two_pools
   \<and> n_row_blocks (length (view_rows many_rows)) = 3
   \<and> map (block_size_of (length (view_rows many_rows))) [0, 1, 2] = [64, 64, 2]
   \<and> (\<exists>out' tt'.
         PredictBatchByBlockOfRowsKernel (\<lambda>b. b mod 2) many_rows (replicate 130 0.5) stump_model
             0 2 two_pools
           = Inr (out', tt')
         \<and> out' = replicate 64 21.5 @ replicate 66 11.5)"
proof -
  note c = kernel_contract [OF many_rows_ready, unfolded int_0 of_nat_numeral]
  from c have nb: "n_row_blocks (length (view_rows many_rows)) = 3"
    by (simp add: many_rows_fields)
  have bs: "map (block_size_of (length (view_rows many_rows))) [0, 1, 2] = [64, 64, 2]"
    by (simp add: many_rows_fields block_size_of_def block_offset_def kBlockOfRowsSize_def)
  from c obtain out' tt' where
    k: "PredictBatchByBlockOfRowsKernel (\<lambda>b. b mod 2) many_rows (replicate 130 0.5) stump_model
            0 2 two_pools
          = Inr (out', tt')"
    and len: "length out' = length (replicate 130 (0.5 :: real))"
    and cells: "\<forall>r < length (view_rows many_rows). \<forall>g < num_output_group stump_model.
                 out' ! ((view_base_rowid many_rows + r) * num_output_group stump_model + g) =
                   replicate 130 0.5
                     ! ((view_base_rowid many_rows + r) * num_output_group stump_model + g)
                   + sum_list (map (\<lambda>t. PredValueByOneTree
                                           (Fill (Init (num_feature stump_model))
                                              (view_rows many_rows ! r))
                                           (trees stump_model ! t))
                                 (filter (\<lambda>t. tree_info stump_model ! t = int g) [0..<2]))"
    by blast
  have cell: "out' ! r = (if r < 64 then 21.5 else 11.5)" if r: "r < 130" for r
  proof -
    from cells r have "out' ! ((view_base_rowid many_rows + r) * num_output_group stump_model + 0) =
                   replicate 130 0.5
                     ! ((view_base_rowid many_rows + r) * num_output_group stump_model + 0)
                   + sum_list (map (\<lambda>t. PredValueByOneTree
                                           (Fill (Init (num_feature stump_model))
                                              (view_rows many_rows ! r))
                                           (trees stump_model ! t))
                                 (filter (\<lambda>t. tree_info stump_model ! t = int 0) [0..<2]))"
      by (simp add: many_rows_fields(2) stump_model_fields)
    then show ?thesis
      using r
      by (simp add: many_rows_fields(1) many_rows_fields(4) [OF r] stump_model_fields upt_0_2
          PredValueByOneTree_def Init_def HasMissing_def stump_def const_tree_def)
  qed
  have "out' = replicate 64 21.5 @ replicate 66 11.5"
  proof (rule nth_equalityI)
    show "length out' = length (replicate 64 (21.5 :: real) @ replicate 66 11.5)"
      using len by simp
  next
    fix r assume "r < length out'"
    then have r: "r < 130" using len by simp
    show "out' ! r = (replicate 64 21.5 @ replicate 66 11.5) ! r"
      using r by (simp add: cell [OF r] nth_append)
  qed
  with k nb bs many_rows_ready show ?thesis by blast
qed

text \<open>
  As stated, for every row source, C1 fails where the row count does not fit the
  32-bit \<open>bst_omp_uint\<close> that the kernel casts it to: for a view of \<open>2 ^ 32\<close> rows the
  cast gives 0, so the kernel runs no block, where the ceiling of \<open>2 ^ 32 / 64\<close> is
  \<open>2 ^ 26\<close>, and it returns the output unchanged, where the trees of the model have
  the leaf values 10 and 1 to add to the cell of row 0. It also fails where the group
  count does not fit the \<open>int32_t\<close> that the kernel reads it into: with
  \<open>2 ^ 32 - 1\<close> groups, two rows and one tree of leaf value 1 in group 1, the value
  for row 1 is added to cell 0 of the output, and cell \<open>1 * (2 ^ 32 - 1) + 1\<close> of row
  1 and group 1 keeps its value 0.5.
\<close>

theorem kernel_counts_wrap:
  "PredictBatchByBlockOfRowsKernel (\<lambda>_. 0) too_many_rows (replicate (2 ^ 32) 0.5) stump_model
       0 2 fresh_pool
     = Inr (replicate (2 ^ 32) 0.5, fresh_pool)
   \<and> n_row_blocks (bst_omp_uint (view_Size too_many_rows)) = 0
   \<and> (view_Size too_many_rows + 63) div 64 = 67108864
   \<and> row_sum stump_model too_many_rows 0 2 0 0 = 11
   \<and> map_sum id (\<lambda>(out', tt). (out' ! 0, out' ! 1, out' ! (1 * 4294967295 + 1)))
         (PredictBatchByBlockOfRowsKernel (\<lambda>_. 0) two_empty_rows (replicate (2 * 4294967295) 0.5)
            many_groups 0 1 fresh_pool)
       = Inr (1.5, 1.5, 0.5)"
proof (intro conjI)
  show "PredictBatchByBlockOfRowsKernel (\<lambda>_. 0) too_many_rows (replicate (2 ^ 32) 0.5) stump_model
            0 2 fresh_pool
          = Inr (replicate (2 ^ 32) 0.5, fresh_pool)"
    by (simp add: PredictBatchByBlockOfRowsKernel_def too_many_rows_fields stump_model_fields
        bst_omp_uint_def n_row_blocks_def)
  show "n_row_blocks (bst_omp_uint (view_Size too_many_rows)) = 0"
    by (simp add: too_many_rows_fields bst_omp_uint_def n_row_blocks_def)
  show "(view_Size too_many_rows + 63) div 64 = 67108864"
    by (simp add: too_many_rows_fields)
  show "row_sum stump_model too_many_rows 0 2 0 0 = 11"
    by (simp add: too_many_rows_fields stump_model_fields row_sum_def block_sum_def upt_0_2
        PredValueByOneTree_def Init_def HasMissing_def stump_def const_tree_def)
  show "map_sum id (\<lambda>(out', tt). (out' ! 0, out' ! 1, out' ! (1 * 4294967295 + 1)))
         (PredictBatchByBlockOfRowsKernel (\<lambda>_. 0) two_empty_rows (replicate (2 * 4294967295) 0.5)
            many_groups 0 1 fresh_pool)
       = Inr (1.5, 1.5, 0.5)"
    unfolding PredictBatchByBlockOfRowsKernel_def many_groups_fields Let_def
    by (simp add: two_empty_rows_def bst_omp_uint_def n_row_blocks_def kBlockOfRowsSize_def
        kernel_block_def block_offset_def block_size_of_def many_groups_fields many_groups_conv
        FVecFill_def FVecDrop_def PredictByAllTrees_def upt_0_2 fresh_pool_eq vec_at_def
        vec_put_def Size_def Init_def PredValueByOneTree_def const_tree_def Let_def)
qed

subsection \<open>C6: reuse of the pooled feature vectors\<close>

text \<open>
  C6. For arguments that satisfy \<open>kernel_ready\<close> (among them a feature count below
  \<open>2 ^ 31\<close>, which the kernel's \<open>int\<close> holds unchanged): for every vector of the pool, made
  ready for a row as the kernel does it, and every row, \<open>Drop\<close> after \<open>Fill\<close> gives back
  the vector as it was before the \<open>Fill\<close>, so filling it again with the same row and
  evaluating a tree gives the same value; and the kernel run a second time on the
  same rows, with the pool that the first run leaves, returns the same output.
\<close>

theorem fill_drop_fill_again:
  assumes "kernel_ready thr batch out model tb te tt"
  shows "(\<forall>fv \<in> set tt. \<forall>inst tree.
            Drop (Fill (if Size fv = 0 then Init (num_feature model) else fv) inst) inst
              = (if Size fv = 0 then Init (num_feature model) else fv)
            \<and> PredValueByOneTree
                (Fill (Drop (Fill (if Size fv = 0 then Init (num_feature model) else fv) inst) inst)
                   inst) tree
              = PredValueByOneTree
                  (Fill (if Size fv = 0 then Init (num_feature model) else fv) inst) tree)
       \<and> (\<exists>out1 tt1 tt2.
            PredictBatchByBlockOfRowsKernel thr batch out model (int tb) (int te) tt = Inr (out1, tt1)
            \<and> PredictBatchByBlockOfRowsKernel thr batch out model (int tb) (int te) tt1 = Inr (out1, tt2))"
proof (intro conjI ballI allI)
  from assms have ok: "pool_ok (num_feature model) tt" by (simp add: kernel_ready_def)
  fix fv inst tree assume fv: "fv \<in> set tt"
  show r: "Drop (Fill (if Size fv = 0 then Init (num_feature model) else fv) inst) inst
              = (if Size fv = 0 then Init (num_feature model) else fv)"
    by (rule pooled_restore [OF ok fv])
  show "PredValueByOneTree
          (Fill (Drop (Fill (if Size fv = 0 then Init (num_feature model) else fv) inst) inst) inst)
          tree
        = PredValueByOneTree (Fill (if Size fv = 0 then Init (num_feature model) else fv) inst) tree"
    by (simp only: r)
next
  from kernel_spec [OF assms] obtain tt1 where
    k1: "PredictBatchByBlockOfRowsKernel thr batch out model (int tb) (int te) tt
           = Inr (kernel_out model batch tb te out, tt1)"
    and p1: "length tt1 = length tt" "pool_ok (num_feature model) tt1"
    by blast
  from kernel_spec [OF kernel_ready_pool [OF assms p1]] obtain tt2 where
    k2: "PredictBatchByBlockOfRowsKernel thr batch out model (int tb) (int te) tt1
           = Inr (kernel_out model batch tb te out, tt2)"
    by blast
  from k1 k2 show "\<exists>out1 tt1 tt2.
            PredictBatchByBlockOfRowsKernel thr batch out model (int tb) (int te) tt = Inr (out1, tt1)
            \<and> PredictBatchByBlockOfRowsKernel thr batch out model (int tb) (int te) tt1 = Inr (out1, tt2)"
    by blast
qed

text \<open>The theorem at the view of two rows, the model of two trees and a fresh pool.\<close>

theorem fill_drop_fill_again_witness:
  "kernel_ready (\<lambda>_. 0) two_rows_view [0.5, 0.5] stump_model 0 2 fresh_pool
   \<and> Drop (Fill (Init 1) [(0, 5)]) [(0, 5)] = Init 1
   \<and> (\<exists>out1 tt1 tt2.
         PredictBatchByBlockOfRowsKernel (\<lambda>_. 0) two_rows_view [0.5, 0.5] stump_model 0 2 fresh_pool
           = Inr (out1, tt1)
         \<and> PredictBatchByBlockOfRowsKernel (\<lambda>_. 0) two_rows_view [0.5, 0.5] stump_model 0 2 tt1
           = Inr (out1, tt2))"
proof -
  note c = fill_drop_fill_again [OF two_rows_ready, unfolded int_0 of_nat_numeral]
  have m: "[] \<in> set fresh_pool" by (simp add: fresh_pool_eq)
  from c m have "Drop (Fill (if Size [] = 0 then Init (num_feature stump_model) else []) [(0, 5)])
                   [(0, 5)] = (if Size [] = 0 then Init (num_feature stump_model) else [])"
    by blast
  then have d: "Drop (Fill (Init 1) [(0, 5)]) [(0, 5)] = Init 1"
    by (simp add: Size_def stump_model_fields)
  from c have "\<exists>out1 tt1 tt2.
         PredictBatchByBlockOfRowsKernel (\<lambda>_. 0) two_rows_view [0.5, 0.5] stump_model 0 2 fresh_pool
           = Inr (out1, tt1)
         \<and> PredictBatchByBlockOfRowsKernel (\<lambda>_. 0) two_rows_view [0.5, 0.5] stump_model 0 2 tt1
           = Inr (out1, tt2)"
    by blast
  with d two_rows_ready show ?thesis by blast
qed

subsection \<open>C8: the dispatch of in-place predict\<close>

text \<open>
  A line with more kept elements than the adapter has columns does not fit its window
  of the workspace: for one column, one worker and a line of nine elements the ninth
  element is written past the end of the workspace of eight entries.
\<close>

lemma replicate_9: "replicate 9 x = [x, x, x, x, x, x, x, x, x]"
  by (simp add: eval_nat_numeral)

lemma long_line_store:
  "store_line None (replicate 9 (0, Some 5)) (replicate 8 (0, 0)) 0 = Inl OutOfRange"
  unfolding replicate_9 by (simp add: store_line_def vec_put_def)

lemma long_line_view:
  "view_Size (new_AdapterView n long_line None ws) = 1"
  "view_at 0 (new_AdapterView (Suc 0) long_line None (replicate 8 (0, 0))) 0 = Inl OutOfRange"
  by (simp_all add: new_AdapterView_def long_line_def NumRows_def vec_at_def kUnroll_def
      long_line_store)

lemma long_line_kernel:
  "PredictBatchByBlockOfRowsKernel (\<lambda>_. 0)
     (new_AdapterView (Suc 0) long_line None (replicate 8 (0, 0))) [0.5] stump_model 0 2
     (replicate 64 []) = Inl OutOfRange"
proof -
  have f: "FVecFill 0 (Suc 0) 0 1 (new_AdapterView (Suc 0) long_line None (replicate 8 (0, 0))) 0
             (replicate 64 []) = Inl OutOfRange"
    by (simp add: FVecFill_def vec_at_def long_line_view)
  show ?thesis
    by (simp add: PredictBatchByBlockOfRowsKernel_def long_line_view bst_omp_uint_def
        n_row_blocks_def kBlockOfRowsSize_def kernel_block_def block_offset_def
        block_size_of_def stump_model_fields int32_t_def f Let_def)
qed

lemma long_line_overruns:
  "DispatchedInplacePredict 1 (\<lambda>_. 0) long_line None stump_model None [] 0 2 = Inl OutOfRange"
proof -
  have p: "InitThreadTemp (nat (int32_t kBlockOfRowsSize)) (Suc 0) [] = replicate 64 []"
    by (simp add: InitThreadTemp_def resize_def kBlockOfRowsSize_def int32_t_def)
  have c: "NumColumns long_line = 1" "NumRows long_line = 1"
    by (simp_all add: long_line_def NumRows_def)
  have i: "InitOutPredictions \<lparr> num_row = Suc 0, base_margin = [] \<rparr> [] stump_model = Inr ([0.5], [])"
    by (simp add: InitOutPredictions_def stump_model_fields resize_def)
  have t: "int32_t 0 = 0" "int32_t 2 = 2" by (simp_all add: int32_t_def)
  have w: "replicate (Suc 0 * 8 * Suc 0 mod 2 ^ 64) (0 :: nat, 0 :: real) = replicate 8 (0, 0)"
    by simp
  show ?thesis
    unfolding DispatchedInplacePredict_def Let_def c One_nat_def
    using long_line_kernel by (simp add: stump_model_fields i p t)
qed

text \<open>
  C8. For an input whose runtime type is none of the four adapter kinds, in-place
  predict returns false (\<open>None\<close>) and raises no error. For an input of one of the four
  kinds it runs the dispatched prediction on the adapter and never returns false:
  its outcome is the outcome of the dispatched prediction, returned with true
  (\<open>Some\<close>); and when the input satisfies \<open>inplace_ready\<close> (the checks of the
  dispatched prediction hold, every line fits its window of the workspace, and the
  counts fit the signed 32-bit integers that hold them) the dispatched prediction
  completes, so in-place predict returns true.
\<close>

theorem InplacePredict_dispatch:
  "InplacePredict threads thr (OtherType t) p_m model missing out_preds tree_begin tree_end
     = Inr None
   \<and> (\<forall>x \<in> {DenseAdapter m, CSRAdapter m, ArrayAdapter m, CSRArrayAdapter m}.
        InplacePredict threads thr x p_m model missing out_preds tree_begin tree_end
          = bindE (DispatchedInplacePredict threads thr m p_m model missing out_preds
                     (unat tree_begin) (unat tree_end)) (\<lambda>r. Inr (Some r))
        \<and> InplacePredict threads thr x p_m model missing out_preds tree_begin tree_end \<noteq> Inr None
        \<and> (inplace_ready threads thr m missing model (unat tree_begin) (unat tree_end) \<longrightarrow>
             (\<exists>r. InplacePredict threads thr x p_m model missing out_preds tree_begin tree_end
                     = Inr (Some r))))"
proof (intro conjI ballI)
  show "InplacePredict threads thr (OtherType t) p_m model missing out_preds tree_begin tree_end
          = Inr None"
    by (simp add: InplacePredict_def)
next
  fix x assume x: "x \<in> {DenseAdapter m, CSRAdapter m, ArrayAdapter m, CSRArrayAdapter m}"
  let ?d = "DispatchedInplacePredict threads thr m p_m model missing out_preds
              (unat tree_begin) (unat tree_end)"
  show e: "InplacePredict threads thr x p_m model missing out_preds tree_begin tree_end
          = bindE ?d (\<lambda>r. Inr (Some r))"
    using x by (auto simp: InplacePredict_def)
  show "InplacePredict threads thr x p_m model missing out_preds tree_begin tree_end \<noteq> Inr None"
    unfolding e by (cases ?d) simp_all
  show "inplace_ready threads thr m missing model (unat tree_begin) (unat tree_end) \<longrightarrow>
          (\<exists>r. InplacePredict threads thr x p_m model missing out_preds tree_begin tree_end
                  = Inr (Some r))"
  proof
    assume "inplace_ready threads thr m missing model (unat tree_begin) (unat tree_end)"
    from DispatchedInplacePredict_returns [OF this, of p_m out_preds]
    obtain r where "?d = Inr r" by blast
    then have "InplacePredict threads thr x p_m model missing out_preds tree_begin tree_end
                  = Inr (Some r)"
      unfolding e by simp
    then show "\<exists>r. InplacePredict threads thr x p_m model missing out_preds tree_begin tree_end
                  = Inr (Some r)" ..
  qed
qed

text \<open>
  The theorem at an input of another type, at a CSR adapter of one column and two
  lines, with the model of one feature, and at the CSR adapter whose line overruns the
  workspace, where the failure of the dispatched prediction is the outcome.
\<close>

theorem InplacePredict_dispatch_witness:
  "InplacePredict 1 (\<lambda>_. 0) (OtherType ''DataFrame'') None stump_model None [] 0 2 = Inr None
   \<and> inplace_ready 1 (\<lambda>_. 0) one_column None stump_model (unat (0 :: 32 word)) (unat (2 :: 32 word))
   \<and> (\<exists>r. InplacePredict 1 (\<lambda>_. 0) (CSRAdapter one_column) None stump_model None [] 0 2
             = Inr (Some r))
   \<and> InplacePredict 1 (\<lambda>_. 0) (CSRAdapter long_line) None stump_model None [] 0 2
       = Inl OutOfRange"
proof -
  note d = InplacePredict_dispatch [where threads = 1 and thr = "\<lambda>_. 0" and t = "''DataFrame''"
      and p_m = None and model = stump_model and missing = None and out_preds = "[]"
      and tree_begin = 0 and tree_end = 2 and m = long_line]
  from d have "InplacePredict 1 (\<lambda>_. 0) (CSRAdapter long_line) None stump_model None [] 0 2
                 = bindE (DispatchedInplacePredict 1 (\<lambda>_. 0) long_line None stump_model None []
                            (unat (0 :: 32 word)) (unat (2 :: 32 word))) (\<lambda>r. Inr (Some r))"
    by blast
  then have e: "InplacePredict 1 (\<lambda>_. 0) (CSRAdapter long_line) None stump_model None [] 0 2
                  = Inl OutOfRange"
    using long_line_overruns by simp
  note c = InplacePredict_dispatch [where threads = 1 and thr = "\<lambda>_. 0" and t = "''DataFrame''"
      and p_m = None and model = stump_model and missing = None and out_preds = "[]"
      and tree_begin = 0 and tree_end = 2 and m = one_column]
  have r: "inplace_ready 1 (\<lambda>_. 0) one_column None stump_model (unat (0 :: 32 word)) (unat (2 :: 32 word))"
    using one_column_ready by simp
  from c have a: "InplacePredict 1 (\<lambda>_. 0) (OtherType ''DataFrame'') None stump_model None [] 0 2
                    = Inr None"
    by blast
  from c r have "\<exists>r. InplacePredict 1 (\<lambda>_. 0) (CSRAdapter one_column) None stump_model None [] 0 2
             = Inr (Some r)"
    by blast
  with a r e show ?thesis by blast
qed

subsection \<open>C2: the composition rule of the interaction values\<close>

text \<open>
  C2 (amended). When the output has fewer than \<open>2 ^ 32\<close> cells (rows times groups times
  the square of the column count), the group count is below \<open>2 ^ 31\<close>, and the
  contribution passes of the interaction pass return \<open>diag\<close> (no condition),
  \<open>Off i\<close> and \<open>On i\<close> (feature \<open>i\<close> off and on, for every \<open>i\<close> up to and
  including the bias index), the interaction pass returns, and for every row \<open>j\<close>,
  group \<open>l\<close> and conditioning feature \<open>i\<close>: for every other feature \<open>k\<close> the stored
  value at \<open>(i, k)\<close> is half the difference of the on- and off-conditioned contributions
  of \<open>k\<close>, and the value at \<open>(i, i)\<close> is the unconditioned contribution of \<open>i\<close> minus
  the sum of the stored off-diagonal values of row \<open>i\<close> of the matrix.
\<close>

theorem interaction_composition:
  assumes "num_row (Info p_fmat) * num_output_group model
             * Suc (interaction_columns model gi nfg) * Suc (interaction_columns model gi nfg)
           < 2 ^ 32"
    and "num_output_group model < 2 ^ 31"
    and "interaction_passes nthread thr p_fmat model ntl tw approx gi nfg diag Off On"
  shows "\<exists>contribs.
           PredictInteractionContributions nthread thr p_fmat out model ntl tw approx gi nfg
             = Inr contribs
           \<and> (\<forall>j < num_row (Info p_fmat). \<forall>l < num_output_group model.
                \<forall>i < Suc (interaction_columns model gi nfg).
                  (\<forall>k < Suc (interaction_columns model gi nfg). k \<noteq> i \<longrightarrow>
                     contribs ! (j * (num_output_group model
                                       * Suc (interaction_columns model gi nfg)
                                       * Suc (interaction_columns model gi nfg))
                                 + l * (Suc (interaction_columns model gi nfg)
                                        * Suc (interaction_columns model gi nfg))
                                 + i * Suc (interaction_columns model gi nfg) + k)
                       = (On i ! (j * (num_output_group model
                                        * Suc (interaction_columns model gi nfg))
                                  + l * Suc (interaction_columns model gi nfg) + k)
                          - Off i ! (j * (num_output_group model
                                           * Suc (interaction_columns model gi nfg))
                                     + l * Suc (interaction_columns model gi nfg) + k)) / 2)
                  \<and> contribs ! (j * (num_output_group model
                                       * Suc (interaction_columns model gi nfg)
                                       * Suc (interaction_columns model gi nfg))
                                 + l * (Suc (interaction_columns model gi nfg)
                                        * Suc (interaction_columns model gi nfg))
                                 + i * Suc (interaction_columns model gi nfg) + i)
                      = diag ! (j * (num_output_group model
                                      * Suc (interaction_columns model gi nfg))
                                + l * Suc (interaction_columns model gi nfg) + i)
                        - (\<Sum>k \<in> {..<Suc (interaction_columns model gi nfg)} - {i}.
                             contribs ! (j * (num_output_group model
                                               * Suc (interaction_columns model gi nfg)
                                               * Suc (interaction_columns model gi nfg))
                                         + l * (Suc (interaction_columns model gi nfg)
                                                * Suc (interaction_columns model gi nfg))
                                         + i * Suc (interaction_columns model gi nfg) + k)))"
proof -
  let ?C = "Suc (interaction_columns model gi nfg)" and ?R = "num_row (Info p_fmat)"
  let ?G = "num_output_group model"
  let ?M = "interaction_matrix diag Off On ?C ?C (resize out (?R * ?G * ?C * ?C) 0)"
  let ?a = "\<lambda>j l i k. j * (?G * ?C * ?C) + l * (?C * ?C) + i * ?C + k"
  let ?c = "\<lambda>j l k. j * (?G * ?C) + l * ?C + k"
  have r: "PredictInteractionContributions nthread thr p_fmat out model ntl tw approx gi nfg
             = Inr ?M"
    by (rule interaction_spec(1) [OF assms])
  have cell: "?M ! ?a j l i k = interaction_cell diag (Off i) (On i) ?C (j * ?G + l) i k"
    if "j < ?R" "l < ?G" "i < ?C" "k < ?C" for j l i k
    by (rule interaction_cell_at [OF that])
  have offd: "?M ! ?a j l i k = (On i ! ?c j l k - Off i ! ?c j l k) / 2"
    if "j < ?R" "l < ?G" "i < ?C" "k < ?C" "k \<noteq> i" for j l i k
    unfolding cell [OF that(1-4)] matrix_address(2)
    using that(5) by (simp add: interaction_cell_def off_diag_def)
  have dg: "?M ! ?a j l i i = diag ! ?c j l i - (\<Sum>k \<in> {..<?C} - {i}. ?M ! ?a j l i k)"
    if "j < ?R" "l < ?G" "i < ?C" for j l i
  proof -
    have "(\<Sum>k \<in> {..<?C} - {i}. ?M ! ?a j l i k)
            = (\<Sum>k \<in> {..<?C} - {i}. off_diag (On i) (Off i) ((j * ?G + l) * ?C) k)"
    proof (rule sum.cong [OF refl])
      fix k assume "k \<in> {..<?C} - {i}"
      then have k: "k < ?C" "k \<noteq> i" by auto
      show "?M ! ?a j l i k = off_diag (On i) (Off i) ((j * ?G + l) * ?C) k"
        unfolding cell [OF that k(1)] using k(2) by (simp add: interaction_cell_def)
    qed
    then show ?thesis
      unfolding cell [OF that that(3)] matrix_address(2)
      by (simp add: interaction_cell_def others_sum_set)
  qed
  show ?thesis
  proof (intro exI conjI allI impI)
    show "PredictInteractionContributions nthread thr p_fmat out model ntl tw approx gi nfg
            = Inr ?M" by (rule r)
  next
    fix j l i k
    assume "j < ?R" "l < ?G" "i < ?C" "k < ?C" "k \<noteq> i"
    then show "?M ! ?a j l i k = (On i ! ?c j l k - Off i ! ?c j l k) / 2" by (rule offd)
  next
    fix j l i
    assume "j < ?R" "l < ?G" "i < ?C"
    then show "?M ! ?a j l i i = diag ! ?c j l i - (\<Sum>k \<in> {..<?C} - {i}. ?M ! ?a j l i k)"
      by (rule dg)
  qed
qed

text \<open>
  The theorem at one row, one group and one feature (two columns with the bias), for
  a tree whose contributions depend on the condition: entry \<open>(0, 1)\<close> is
  \<open>(4.5 - 0.5) / 2\<close> and entry \<open>(0, 0)\<close> is \<open>1 - 2\<close>.
\<close>

theorem interaction_composition_witness:
  "num_row (Info one_row) * num_output_group shap_model
     * Suc (interaction_columns shap_model None 0) * Suc (interaction_columns shap_model None 0)
   < 2 ^ 32
   \<and> num_output_group shap_model < 2 ^ 31
   \<and> interaction_passes 1 (\<lambda>_. 0) one_row shap_model 0 None False None 0 (shap_pass 0 0)
     (\<lambda>i. shap_pass (- 1) (unsigned32 i)) (\<lambda>i. shap_pass 1 (unsigned32 i))
   \<and> (\<exists>contribs.
         PredictInteractionContributions 1 (\<lambda>_. 0) one_row [] shap_model 0 None False None 0
           = Inr contribs
         \<and> contribs ! 1 = 2 \<and> contribs ! 0 = - 1)"
proof -
  from interaction_composition [OF shap_small shap_passes, of "[]"]
  obtain contribs where
    r: "PredictInteractionContributions 1 (\<lambda>_. 0) one_row [] shap_model 0 None False None 0
             = Inr contribs"
    and cells: "(\<forall>j < num_row (Info one_row). \<forall>l < num_output_group shap_model.
                \<forall>i < Suc (interaction_columns shap_model None 0).
                  (\<forall>k < Suc (interaction_columns shap_model None 0). k \<noteq> i \<longrightarrow>
                     contribs ! (j * (num_output_group shap_model
                                       * Suc (interaction_columns shap_model None 0)
                                       * Suc (interaction_columns shap_model None 0))
                                 + l * (Suc (interaction_columns shap_model None 0)
                                        * Suc (interaction_columns shap_model None 0))
                                 + i * Suc (interaction_columns shap_model None 0) + k)
                       = ((\<lambda>i. shap_pass 1 (unsigned32 i)) i ! (j * (num_output_group shap_model
                                        * Suc (interaction_columns shap_model None 0))
                                  + l * Suc (interaction_columns shap_model None 0) + k)
                          - (\<lambda>i. shap_pass (- 1) (unsigned32 i)) i ! (j * (num_output_group shap_model
                                           * Suc (interaction_columns shap_model None 0))
                                     + l * Suc (interaction_columns shap_model None 0) + k)) / 2)
                  \<and> contribs ! (j * (num_output_group shap_model
                                       * Suc (interaction_columns shap_model None 0)
                                       * Suc (interaction_columns shap_model None 0))
                                 + l * (Suc (interaction_columns shap_model None 0)
                                        * Suc (interaction_columns shap_model None 0))
                                 + i * Suc (interaction_columns shap_model None 0) + i)
                      = (shap_pass 0 0) ! (j * (num_output_group shap_model
                                      * Suc (interaction_columns shap_model None 0))
                                + l * Suc (interaction_columns shap_model None 0) + i)
                        - (\<Sum>k \<in> {..<Suc (interaction_columns shap_model None 0)} - {i}.
                             contribs ! (j * (num_output_group shap_model
                                               * Suc (interaction_columns shap_model None 0)
                                               * Suc (interaction_columns shap_model None 0))
                                         + l * (Suc (interaction_columns shap_model None 0)
                                                * Suc (interaction_columns shap_model None 0))
                                         + i * Suc (interaction_columns shap_model None 0) + k)))"
    by blast
  have b: "(0 :: nat) < num_row (Info one_row)" "(0 :: nat) < num_output_group shap_model"
    "(0 :: nat) < Suc (interaction_columns shap_model None 0)"
    by (simp_all add: one_row_fields shap_model_fields)
  from cells [rule_format, OF b]
  have c: "(\<forall>k < Suc (Suc 0). k \<noteq> 0 \<longrightarrow>
              contribs ! k = (shap_pass 1 0 ! k - shap_pass (- 1) 0 ! k) / 2)
           \<and> contribs ! 0 = shap_pass 0 0 ! 0 - (\<Sum>k \<in> {..<Suc (Suc 0)} - {0}. contribs ! k)"
    by (simp add: shap_columns unsigned32_def)
  then have c1: "contribs ! Suc 0 = 2"
    by (simp add: shap_pass_def)
  have s: "{..<Suc (Suc 0)} - {0 :: nat} = {Suc 0}" by auto
  from c have c0: "contribs ! 0 = - 1"
    unfolding s using c1 by (simp add: shap_pass_def)
  from r c1 c0 have "\<exists>contribs.
         PredictInteractionContributions 1 (\<lambda>_. 0) one_row [] shap_model 0 None False None 0
           = Inr contribs
         \<and> contribs ! 1 = 2 \<and> contribs ! 0 = - 1"
    by auto
  with shap_small shap_passes show ?thesis by (intro conjI)
qed

text \<open>
  As stated, for every row, C2 fails where the \<open>unsigned\<close> offsets of the output wrap.
  With \<open>2 ^ 30 + 1\<close> rows, one group and one feature (two columns), the matrix of the
  last row starts at cell \<open>2 ^ 32\<close>, but its offset is computed as 0, so its cells are
  never written: entry \<open>(0, 1)\<close> of that row is the 0 of the fresh output, whereas the
  on- and off-conditioned contributions of column 1 for that row are 4.5 and 0.5, whose
  half difference is 2.
\<close>

theorem interaction_composition_wraps:
  "map_sum id (\<lambda>contribs. contribs ! (1073741824 * (1 * 2 * 2) + 0 * (2 * 2) + 0 * 2 + 1))
     (PredictInteractionContributions 1 (\<lambda>_. 0) wrap_rows [] shap_model 0 None False None 0)
     = Inr 0
   \<and> map_sum id (\<lambda>on. on ! (1073741824 * (1 * 2) + 0 * 2 + 1))
       (PredictContribution 1 (\<lambda>_. 0) wrap_rows (replicate 2147483650 0) shap_model 0 None
          False None 0 1 0)
       = Inr 4.5
   \<and> map_sum id (\<lambda>off. off ! (1073741824 * (1 * 2) + 0 * 2 + 1))
       (PredictContribution 1 (\<lambda>_. 0) wrap_rows (replicate 2147483650 0) shap_model 0 None
          False None 0 (- 1) 0)
       = Inr 0.5
   \<and> num_row (Info wrap_rows) = 1073741825"
proof (intro conjI)
  from wrap_interaction obtain out where
    "PredictInteractionContributions 1 (\<lambda>_. 0) wrap_rows [] shap_model 0 None False None 0
       = Inr out"
    "\<forall>idx. 4294967297 \<le> idx \<longrightarrow> idx < 4294967300 \<longrightarrow> out ! idx = 0"
    by blast
  then show "map_sum id (\<lambda>contribs. contribs ! (1073741824 * (1 * 2 * 2) + 0 * (2 * 2) + 0 * 2 + 1))
     (PredictInteractionContributions 1 (\<lambda>_. 0) wrap_rows [] shap_model 0 None False None 0)
     = Inr 0"
    by simp
  have l: "length (shap_pass c i) = 2" for c i by (simp add: shap_pass_def)
  have n: "concat (replicate 1073741825 (shap_pass c i)) ! 2147483649 = shap_pass c i ! 1" for c i
    using concat_replicate_nth [of "shap_pass c i" 2147483649 1073741825] by (simp add: l)
  show "map_sum id (\<lambda>on. on ! (1073741824 * (1 * 2) + 0 * 2 + 1))
       (PredictContribution 1 (\<lambda>_. 0) wrap_rows (replicate 2147483650 0) shap_model 0 None
          False None 0 1 0)
       = Inr 4.5"
    unfolding wrap_pass by (simp add: n) (simp add: shap_pass_def)
  show "map_sum id (\<lambda>off. off ! (1073741824 * (1 * 2) + 0 * 2 + 1))
       (PredictContribution 1 (\<lambda>_. 0) wrap_rows (replicate 2147483650 0) shap_model 0 None
          False None 0 (- 1) 0)
       = Inr 0.5"
    unfolding wrap_pass by (simp add: n) (simp add: shap_pass_def)
  show "num_row (Info wrap_rows) = 1073741825" by (rule wrap_rows_fields)
qed

subsection \<open>C3: the sums of the interaction matrix\<close>

text \<open>
  C3 (amended). When the output has fewer than \<open>2 ^ 32\<close> cells, the group count is
  below \<open>2 ^ 31\<close> and the contribution passes of the interaction pass return \<open>diag\<close>,
  \<open>Off i\<close> and \<open>On i\<close>, for every row \<open>j\<close> and group \<open>l\<close>: each row \<open>i\<close> of
  the interaction matrix, diagonal included, sums to the unconditioned contribution
  of feature \<open>i\<close>, and the sum of all entries of the matrix is the sum of the
  unconditioned contributions of that row and group.
\<close>

theorem interaction_sums:
  assumes "num_row (Info p_fmat) * num_output_group model
             * Suc (interaction_columns model gi nfg) * Suc (interaction_columns model gi nfg)
           < 2 ^ 32"
    and "num_output_group model < 2 ^ 31"
    and "interaction_passes nthread thr p_fmat model ntl tw approx gi nfg diag Off On"
  shows "\<exists>contribs.
           PredictInteractionContributions nthread thr p_fmat out model ntl tw approx gi nfg
             = Inr contribs
           \<and> (\<forall>j < num_row (Info p_fmat). \<forall>l < num_output_group model.
                (\<forall>i < Suc (interaction_columns model gi nfg).
                   (\<Sum>k < Suc (interaction_columns model gi nfg).
                      contribs ! (j * (num_output_group model
                                        * Suc (interaction_columns model gi nfg)
                                        * Suc (interaction_columns model gi nfg))
                                  + l * (Suc (interaction_columns model gi nfg)
                                         * Suc (interaction_columns model gi nfg))
                                  + i * Suc (interaction_columns model gi nfg) + k))
                     = diag ! (j * (num_output_group model
                                     * Suc (interaction_columns model gi nfg))
                               + l * Suc (interaction_columns model gi nfg) + i))
                \<and> (\<Sum>i < Suc (interaction_columns model gi nfg).
                     \<Sum>k < Suc (interaction_columns model gi nfg).
                       contribs ! (j * (num_output_group model
                                         * Suc (interaction_columns model gi nfg)
                                         * Suc (interaction_columns model gi nfg))
                                   + l * (Suc (interaction_columns model gi nfg)
                                          * Suc (interaction_columns model gi nfg))
                                   + i * Suc (interaction_columns model gi nfg) + k))
                    = (\<Sum>i < Suc (interaction_columns model gi nfg).
                         diag ! (j * (num_output_group model
                                       * Suc (interaction_columns model gi nfg))
                                 + l * Suc (interaction_columns model gi nfg) + i)))"
proof -
  let ?C = "Suc (interaction_columns model gi nfg)" and ?R = "num_row (Info p_fmat)"
  let ?G = "num_output_group model"
  let ?M = "interaction_matrix diag Off On ?C ?C (resize out (?R * ?G * ?C * ?C) 0)"
  let ?a = "\<lambda>j l i k. j * (?G * ?C * ?C) + l * (?C * ?C) + i * ?C + k"
  let ?c = "\<lambda>j l k. j * (?G * ?C) + l * ?C + k"
  have r: "PredictInteractionContributions nthread thr p_fmat out model ntl tw approx gi nfg
             = Inr ?M"
    by (rule interaction_spec(1) [OF assms])
  have row: "(\<Sum>k < ?C. ?M ! ?a j l i k) = diag ! ?c j l i"
    if "j < ?R" "l < ?G" "i < ?C" for j l i
  proof -
    let ?f = "\<lambda>k. interaction_cell diag (Off i) (On i) ?C (j * ?G + l) i k"
    have "(\<Sum>k < ?C. ?M ! ?a j l i k) = (\<Sum>k < ?C. ?f k)"
    proof (rule sum.cong [OF refl])
      fix k assume "k \<in> {..<?C}"
      then have "k < ?C" by (simp only: lessThan_iff)
      from interaction_cell_at [OF that this] show "?M ! ?a j l i k = ?f k" .
    qed
    also have "\<dots> = diag ! ((j * ?G + l) * ?C + i)"
      by (rule interaction_cell_row_sum [OF that(3)])
    finally show ?thesis by (simp only: matrix_address(2))
  qed
  have total: "(\<Sum>i < ?C. \<Sum>k < ?C. ?M ! ?a j l i k) = (\<Sum>i < ?C. diag ! ?c j l i)"
    if "j < ?R" "l < ?G" for j l
  proof (rule sum.cong [OF refl])
    fix i assume "i \<in> {..<?C}"
    then have "i < ?C" by (simp only: lessThan_iff)
    from row [OF that this] show "(\<Sum>k < ?C. ?M ! ?a j l i k) = diag ! ?c j l i" .
  qed
  show ?thesis
  proof (intro exI conjI allI impI)
    show "PredictInteractionContributions nthread thr p_fmat out model ntl tw approx gi nfg
            = Inr ?M" by (rule r)
  next
    fix j l i
    assume "j < ?R" "l < ?G" "i < ?C"
    then show "(\<Sum>k < ?C. ?M ! ?a j l i k) = diag ! ?c j l i" by (rule row)
  next
    fix j l
    assume "j < ?R" "l < ?G"
    then show "(\<Sum>i < ?C. \<Sum>k < ?C. ?M ! ?a j l i k) = (\<Sum>i < ?C. diag ! ?c j l i)"
      by (rule total)
  qed
qed

text \<open>
  The theorem at the same input: row 0 of the matrix sums to the contribution 1 of
  feature 0, and the four entries sum to \<open>1 + 2.5\<close>.
\<close>

theorem interaction_sums_witness:
  "num_row (Info one_row) * num_output_group shap_model
     * Suc (interaction_columns shap_model None 0) * Suc (interaction_columns shap_model None 0)
   < 2 ^ 32
   \<and> num_output_group shap_model < 2 ^ 31
   \<and> interaction_passes 1 (\<lambda>_. 0) one_row shap_model 0 None False None 0 (shap_pass 0 0)
     (\<lambda>i. shap_pass (- 1) (unsigned32 i)) (\<lambda>i. shap_pass 1 (unsigned32 i))
   \<and> (\<exists>contribs.
         PredictInteractionContributions 1 (\<lambda>_. 0) one_row [] shap_model 0 None False None 0
           = Inr contribs
         \<and> contribs ! 0 + contribs ! 1 = 1
         \<and> contribs ! 0 + contribs ! 1 + (contribs ! 2 + contribs ! 3) = 7 / 2)"
proof -
  from interaction_sums [OF shap_small shap_passes, of "[]"]
  obtain contribs where
    r: "PredictInteractionContributions 1 (\<lambda>_. 0) one_row [] shap_model 0 None False None 0
             = Inr contribs"
    and sums: "(\<forall>j < num_row (Info one_row). \<forall>l < num_output_group shap_model.
                (\<forall>i < Suc (interaction_columns shap_model None 0).
                   (\<Sum>k < Suc (interaction_columns shap_model None 0).
                      contribs ! (j * (num_output_group shap_model
                                        * Suc (interaction_columns shap_model None 0)
                                        * Suc (interaction_columns shap_model None 0))
                                  + l * (Suc (interaction_columns shap_model None 0)
                                         * Suc (interaction_columns shap_model None 0))
                                  + i * Suc (interaction_columns shap_model None 0) + k))
                     = (shap_pass 0 0) ! (j * (num_output_group shap_model
                                     * Suc (interaction_columns shap_model None 0))
                               + l * Suc (interaction_columns shap_model None 0) + i))
                \<and> (\<Sum>i < Suc (interaction_columns shap_model None 0).
                     \<Sum>k < Suc (interaction_columns shap_model None 0).
                       contribs ! (j * (num_output_group shap_model
                                         * Suc (interaction_columns shap_model None 0)
                                         * Suc (interaction_columns shap_model None 0))
                                   + l * (Suc (interaction_columns shap_model None 0)
                                          * Suc (interaction_columns shap_model None 0))
                                   + i * Suc (interaction_columns shap_model None 0) + k))
                    = (\<Sum>i < Suc (interaction_columns shap_model None 0).
                         (shap_pass 0 0) ! (j * (num_output_group shap_model
                                       * Suc (interaction_columns shap_model None 0))
                                 + l * Suc (interaction_columns shap_model None 0) + i)))"
    by blast
  have b: "(0 :: nat) < num_row (Info one_row)" "(0 :: nat) < num_output_group shap_model"
    by (simp_all add: one_row_fields shap_model_fields)
  from sums [rule_format, OF b]
  have s: "(\<forall>i < Suc (Suc 0). contribs ! (i + i) + contribs ! Suc (i + i) = shap_pass 0 0 ! i)
           \<and> contribs ! 0 + contribs ! Suc 0
               + (contribs ! Suc (Suc 0) + contribs ! Suc (Suc (Suc 0)))
               = shap_pass 0 0 ! 0 + shap_pass 0 0 ! Suc 0"
    by (simp add: shap_columns)
  then have "contribs ! (0 + 0) + contribs ! Suc (0 + 0) = shap_pass 0 0 ! 0" by blast
  then have a: "contribs ! 0 + contribs ! 1 = 1"
    by (simp add: shap_pass_def)
  from s have t: "contribs ! 0 + contribs ! 1 + (contribs ! 2 + contribs ! 3) = 7 / 2"
    by (simp add: shap_pass_def eval_nat_numeral)
  from r a t have "\<exists>contribs.
         PredictInteractionContributions 1 (\<lambda>_. 0) one_row [] shap_model 0 None False None 0
           = Inr contribs
         \<and> contribs ! 0 + contribs ! 1 = 1
         \<and> contribs ! 0 + contribs ! 1 + (contribs ! 2 + contribs ! 3) = 7 / 2"
    by blast
  with shap_small shap_passes show ?thesis by (intro conjI)
qed

text \<open>
  As stated, for every row, C3 fails where the \<open>unsigned\<close> offsets of the output wrap.
  With \<open>2 ^ 30 + 1\<close> rows, one group and one feature (two columns), the cells of the
  matrix of the last row are never written: its row of the bias column, entries
  \<open>(1, 0)\<close> and \<open>(1, 1)\<close>, sums to 0, whereas the single-feature attribution of the bias
  column for that row is 2.5.
\<close>

theorem interaction_sums_wrap:
  "map_sum id (\<lambda>contribs. contribs ! (1073741824 * (1 * 2 * 2) + 0 * (2 * 2) + 1 * 2 + 0)
                            + contribs ! (1073741824 * (1 * 2 * 2) + 0 * (2 * 2) + 1 * 2 + 1))
     (PredictInteractionContributions 1 (\<lambda>_. 0) wrap_rows [] shap_model 0 None False None 0)
     = Inr 0
   \<and> map_sum id (\<lambda>diag. diag ! (1073741824 * (1 * 2) + 0 * 2 + 1))
       (PredictContribution 1 (\<lambda>_. 0) wrap_rows (replicate 2147483650 0) shap_model 0 None
          False None 0 0 0)
       = Inr 2.5
   \<and> num_row (Info wrap_rows) = 1073741825"
proof (intro conjI)
  from wrap_interaction obtain out where
    "PredictInteractionContributions 1 (\<lambda>_. 0) wrap_rows [] shap_model 0 None False None 0
       = Inr out"
    "\<forall>idx. 4294967297 \<le> idx \<longrightarrow> idx < 4294967300 \<longrightarrow> out ! idx = 0"
    by blast
  then show "map_sum id (\<lambda>contribs. contribs ! (1073741824 * (1 * 2 * 2) + 0 * (2 * 2) + 1 * 2 + 0)
                            + contribs ! (1073741824 * (1 * 2 * 2) + 0 * (2 * 2) + 1 * 2 + 1))
     (PredictInteractionContributions 1 (\<lambda>_. 0) wrap_rows [] shap_model 0 None False None 0)
     = Inr 0"
    by simp
  have l: "length (shap_pass c i) = 2" for c i by (simp add: shap_pass_def)
  have n: "concat (replicate 1073741825 (shap_pass c i)) ! 2147483649 = shap_pass c i ! 1" for c i
    using concat_replicate_nth [of "shap_pass c i" 2147483649 1073741825] by (simp add: l)
  show "map_sum id (\<lambda>diag. diag ! (1073741824 * (1 * 2) + 0 * 2 + 1))
       (PredictContribution 1 (\<lambda>_. 0) wrap_rows (replicate 2147483650 0) shap_model 0 None
          False None 0 0 0)
       = Inr 2.5"
    unfolding wrap_pass by (simp add: n) (simp add: shap_pass_def)
  show "num_row (Info wrap_rows) = 1073741825" by (rule wrap_rows_fields)
qed

end
